(* ===== verification/Ws_Prelude.thy ===== *)
theory Ws_Prelude
  imports
    Main
    "HOL-Library.Word"
    "HOL-Library.Char_ord"
    "HOL-Library.List_Lexorder"
    "HOL-Library.Product_Lexorder"
begin

text \<open>
  Shared vocabulary of the development: names for the machine types of the Rust sources,
  the question-mark operator on results, the two \<open>DashMap\<close> idioms that the session registry
  and the presence tables use on maps whose values are sets, the iteration-order parameter of
  those tables, and the generic lemmas on lists, maps and words that the components share.

  Conventions.  A Rust \<open>String\<close> is its UTF-8 byte sequence, a HOL \<open>string\<close> (a HOL character
  is one byte), so \<open>length\<close> is the Rust byte length.  \<open>u8\<close>, \<open>u32\<close> and \<open>u64\<close> values are
  words and wrap, as release builds and the atomics do; \<open>usize\<close> values are lengths and
  reference counts of in-memory objects and are natural numbers.  An \<open>Instant\<close> is a natural
  number of nanoseconds.
\<close>

unbundle bit_operations_syntax

type_synonym u8 = "8 word"
type_synonym u16 = "16 word"
type_synonym u32 = "32 word"
type_synonym u64 = "64 word"
type_synonym usize = nat
type_synonym bytes = "u8 list"
type_synonym instant = nat

named_theorems ws_defs \<open>definitions of the operations of the model\<close>
named_theorems dm_simps \<open>rewrite rules of the map-of-sets idioms\<close>

section \<open>Results\<close>

text \<open>The \<open>?\<close> operator: the first error leaves the function.\<close>

definition and_then :: "'e + 'a \<Rightarrow> ('a \<Rightarrow> 'e + 'b) \<Rightarrow> 'e + 'b" where
  "and_then r f = (case r of Inl e \<Rightarrow> Inl e | Inr a \<Rightarrow> f a)"

lemma and_then_simps [simp]:
  "and_then (Inl e) f = Inl e"
  "and_then (Inr a) f = f a"
  by (simp_all add: and_then_def)

lemma and_then_eq_Inr: "and_then r f = Inr b \<longleftrightarrow> (\<exists>a. r = Inr a \<and> f a = Inr b)"
  by (cases r) simp_all

lemma and_then_eq_Inl: "and_then r f = Inl e \<longleftrightarrow> r = Inl e \<or> (\<exists>a. r = Inr a \<and> f a = Inl e)"
  by (cases r) simp_all

section \<open>Maps of sets: DashMap of DashSet\<close>

text \<open>
  \<open>dm_get\<close> reads the set stored under a key (empty when the key is absent);
  \<open>dm_add\<close> is \<open>m.entry(k).or_default().insert(v)\<close>;
  \<open>dm_del\<close> is \<open>if let Some(set) = m.get(k) { set.remove(v); if set.is_empty() { m.remove(k) } }\<close>.
\<close>

definition dm_get :: "('k \<rightharpoonup> 'v set) \<Rightarrow> 'k \<Rightarrow> 'v set" where
  "dm_get m k = (case m k of None \<Rightarrow> {} | Some S \<Rightarrow> S)"

definition dm_add :: "('k \<rightharpoonup> 'v set) \<Rightarrow> 'k \<Rightarrow> 'v \<Rightarrow> ('k \<rightharpoonup> 'v set)" where
  "dm_add m k v = m(k \<mapsto> insert v (case m k of None \<Rightarrow> {} | Some S \<Rightarrow> S))"

definition dm_del :: "('k \<rightharpoonup> 'v set) \<Rightarrow> 'k \<Rightarrow> 'v \<Rightarrow> ('k \<rightharpoonup> 'v set)" where
  "dm_del m k v =
     (case m k of
        None \<Rightarrow> m
      | Some S \<Rightarrow> (let S' = S - {v} in if S' = {} then m(k := None) else m(k \<mapsto> S')))"

text \<open>A table is well formed when it has finitely many keys, each with a finite, non-empty set.\<close>

definition dm_ok :: "('k \<rightharpoonup> 'v set) \<Rightarrow> bool" where
  "dm_ok m \<longleftrightarrow> finite (dom m) \<and> (\<forall>k S. m k = Some S \<longrightarrow> S \<noteq> {} \<and> finite S)"

lemma dm_get_empty [dm_simps]: "dm_get Map.empty k = {}"
  by (simp add: dm_get_def)

lemma dm_get_add [dm_simps]: "dm_get (dm_add m k v) k' = (if k' = k then insert v (dm_get m k) else dm_get m k')"
  by (simp add: dm_get_def dm_add_def)

lemma dm_get_del [dm_simps]: "dm_get (dm_del m k v) k' = (if k' = k then dm_get m k - {v} else dm_get m k')"
  by (auto simp: dm_get_def dm_del_def Let_def split: option.splits)

lemma dm_get_upd [dm_simps]: "dm_get (m(k := None)) k' = (if k' = k then {} else dm_get m k')"
  by (simp add: dm_get_def)

lemma dm_ok_empty [simp]: "dm_ok Map.empty"
  by (simp add: dm_ok_def)

lemma dm_ok_add [intro]: "dm_ok m \<Longrightarrow> dm_ok (dm_add m k v)"
  by (auto simp: dm_ok_def dm_add_def split: option.splits)

lemma dm_ok_del [intro]: "dm_ok m \<Longrightarrow> dm_ok (dm_del m k v)"
  by (auto simp: dm_ok_def dm_del_def Let_def split: option.splits)

lemma dm_ok_upd_None [intro]: "dm_ok m \<Longrightarrow> dm_ok (m(k := None))"
  by (auto simp: dm_ok_def)

lemma dm_ok_None: "dm_ok m \<Longrightarrow> m k = None \<longleftrightarrow> dm_get m k = {}"
  by (auto simp: dm_ok_def dm_get_def split: option.splits)

lemma dm_ok_dom: "dm_ok m \<Longrightarrow> k \<in> dom m \<longleftrightarrow> dm_get m k \<noteq> {}"
  by (metis dm_ok_None domIff)

lemma dm_ok_dom_eq: "dm_ok m \<Longrightarrow> dom m = {k. dm_get m k \<noteq> {}}"
  using dm_ok_dom [of m] by blast

lemma dm_ok_finite: "dm_ok m \<Longrightarrow> finite (dm_get m k)"
  by (auto simp: dm_ok_def dm_get_def split: option.splits)

lemma dm_ok_finite_dom: "dm_ok m \<Longrightarrow> finite (dom m)"
  by (simp add: dm_ok_def)

lemma dm_get_Some: "m k = Some S \<Longrightarrow> dm_get m k = S"
  by (simp add: dm_get_def)

lemma dm_ok_Some: "dm_ok m \<Longrightarrow> m k = Some S \<longleftrightarrow> dm_get m k = S \<and> S \<noteq> {}"
  by (auto simp: dm_ok_def dm_get_def split: option.splits)

lemma dm_ext: "dm_ok m \<Longrightarrow> dm_ok m' \<Longrightarrow> (\<And>k. dm_get m k = dm_get m' k) \<Longrightarrow> m = m'"
proof
  fix k assume "dm_ok m" "dm_ok m'" "\<And>k. dm_get m k = dm_get m' k"
  then show "m k = m' k"
    by (cases "m k"; cases "m' k") (metis dm_ok_None dm_ok_Some)+
qed

text \<open>
  The order in which a \<open>DashMap\<close> or \<open>DashSet\<close> yields its entries is not specified.  It is a
  parameter of every operation that iterates; all that is known is that each entry of the table
  comes exactly once.
\<close>

type_synonym iter_order = "string set \<Rightarrow> string list"

definition iter_ok :: "('k set \<Rightarrow> 'k list) \<Rightarrow> bool" where
  "iter_ok it \<longleftrightarrow> (\<forall>S. finite S \<longrightarrow> set (it S) = S \<and> distinct (it S))"

lemma iter_ok_set: "iter_ok it \<Longrightarrow> finite S \<Longrightarrow> set (it S) = S"
  by (simp add: iter_ok_def)

lemma iter_ok_distinct: "iter_ok it \<Longrightarrow> finite S \<Longrightarrow> distinct (it S)"
  by (simp add: iter_ok_def)

lemma iter_ok_sorted: "iter_ok sorted_list_of_set"
  by (simp add: iter_ok_def)

section \<open>Composite keys\<close>

text \<open>
  Every key of the runtime tables is built with \<open>format!("{}::{}", a, b)\<close>.  Joining is
  injective as long as the left part has no colon.
\<close>

definition key_join :: "string \<Rightarrow> string \<Rightarrow> string" where
  "key_join a b = a @ ''::'' @ b"

lemma key_join_inject_right [simp]: "key_join a b = key_join a c \<longleftrightarrow> b = c"
  by (simp add: key_join_def)

lemma append_sep_inject:
  assumes "a @ c # b = a' @ c # b'" and "c \<notin> set a" and "c \<notin> set a'"
  shows "a = a' \<and> b = b'"
  using assms
proof (induction a arbitrary: a')
  case Nil
  then show ?case by (cases a') auto
next
  case (Cons x a)
  then show ?case by (cases a') auto
qed

lemma key_join_inject:
  assumes "key_join a b = key_join a' b'" and "CHR '':'' \<notin> set a" and "CHR '':'' \<notin> set a'"
  shows "a = a' \<and> b = b'"
  using append_sep_inject [of a "CHR '':''" "CHR '':'' # b" a' "CHR '':'' # b'"] assms
  by (simp add: key_join_def)

section \<open>Integers as text\<close>

text \<open>The \<open>{}\<close> and \<open>{:x}\<close> formats of an unsigned integer.\<close>

fun show_nat :: "nat \<Rightarrow> string" where
  "show_nat n =
     (if n < 10 then [char_of (48 + n)] else show_nat (n div 10) @ [char_of (48 + n mod 10)])"

declare show_nat.simps [simp del]

definition hex_digit :: "nat \<Rightarrow> char" where
  "hex_digit n = (if n < 10 then char_of (48 + n) else char_of (87 + n))"

fun show_hex :: "nat \<Rightarrow> string" where
  "show_hex n = (if n < 16 then [hex_digit n] else show_hex (n div 16) @ [hex_digit (n mod 16)])"

declare show_hex.simps [simp del]

section \<open>Words\<close>

lemma unat_of_nat_le: "unat (of_nat n :: 'a::len word) \<le> n"
  by (simp add: unat_of_nat)

lemma unat_mult_le: "unat (a * b :: 'a::len word) \<le> unat a * unat b"
  by (simp add: unat_word_ariths)

lemma unat_add_le: "unat (a + b :: 'a::len word) \<le> unat a + unat b"
  by (simp add: unat_word_ariths)

lemma unat_ucast_le: "unat (ucast (a :: 'a::len word) :: 'b::len word) \<le> unat a"
  by (simp add: unsigned_ucast_eq take_bit_nat_less_eq_self)

lemma unat_min: "unat (min a b :: 'a::len word) = min (unat a) (unat b)"
  by (simp add: min_def word_le_nat_alt)

lemma unat_max: "unat (max a b :: 'a::len word) = max (unat a) (unat b)"
  by (simp add: max_def word_le_nat_alt)

lemma word_neq_0_unat: "(a :: 'a::len word) \<noteq> 0 \<longleftrightarrow> 0 < unat a"
  by (metis neq0_conv unat_eq_zero)

lemma unat_minus_one_pos: "(a :: 'a::len word) \<noteq> 0 \<Longrightarrow> unat (a - 1) = unat a - 1"
  by (rule unat_minus_one)

lemma unat_plus_one: "(x :: 'a::len word) \<noteq> - 1 \<Longrightarrow> unat (x + 1) = Suc (unat x)"
  using max_word_wrap [of x] unatSuc [of x] by (auto simp: add.commute)

lemma word_less_plus_one: "(x :: 'a::len word) \<noteq> - 1 \<Longrightarrow> x < x + 1"
  by (simp add: word_less_nat_alt unat_plus_one)

lemma ucast_u32_u64 [simp]: "unat (ucast (a :: u32) :: u64) = unat a"
proof -
  have "unat a < 2 ^ 32" using unsigned_less [of a] by simp
  then have "unat a < 2 ^ 64" by (rule less_trans) simp
  then show ?thesis by (simp add: unsigned_ucast_eq take_bit_nat_eq_self)
qed

lemma of_nat_card_insert:
  "finite S \<Longrightarrow> x \<notin> S \<Longrightarrow> (of_nat (card (insert x S)) :: 'a::len word) = of_nat (card S) + 1"
  by (simp add: add.commute)

lemma of_nat_card_remove:
  assumes "finite S" and "x \<in> S"
  shows "(of_nat (card (S - {x})) :: 'a::len word) = of_nat (card S) - 1"
proof -
  from assms have "Suc (card (S - {x})) = card S" by (rule card.remove [symmetric])
  then have "(of_nat (Suc (card (S - {x}))) :: 'a word) = of_nat (card S)" by simp
  then show ?thesis by (simp add: algebra_simps)
qed

lemma unat_of_nat_le_word:
  "n \<le> unat (M :: 'a::len word) \<Longrightarrow> unat (of_nat n :: 'a word) = n"
  by (metis le_unat_uoi)

end
