(* ===== verification/Ws_Error.thy ===== *)
theory Ws_Error
  imports Ws_Prelude
begin

text \<open>
  The shared error type of the core crate (\<open>crates/wsprism-core/src/error.rs\<close>): the internal
  variants, the stable client-facing codes with their wire names, the mapping between them and
  the \<open>Display\<close> text that goes into \<open>sys.error\<close> envelopes.
\<close>

datatype ClientCode =
    CC_BadRequest | CC_AuthFailed | CC_RateLimited | CC_PayloadTooLarge
  | CC_NotAllowed | CC_ResourceExhausted | CC_UnsupportedVersion | CC_Internal

fun as_str :: "ClientCode \<Rightarrow> string" where
  "as_str CC_BadRequest = ''BAD_REQUEST''"
| "as_str CC_AuthFailed = ''AUTH_FAILED''"
| "as_str CC_RateLimited = ''RATE_LIMITED''"
| "as_str CC_PayloadTooLarge = ''PAYLOAD_TOO_LARGE''"
| "as_str CC_NotAllowed = ''NOT_ALLOWED''"
| "as_str CC_ResourceExhausted = ''RESOURCE_EXHAUSTED''"
| "as_str CC_UnsupportedVersion = ''UNSUPPORTED_VERSION''"
| "as_str CC_Internal = ''INTERNAL''"

datatype WsPrismError =
    BadRequest string
  | AuthFailed
  | RateLimited
  | PayloadTooLarge
  | NotAllowed string
  | ResourceExhausted string
  | UnsupportedVersion
  | Internal string

type_synonym 'a result = "WsPrismError + 'a"

fun client_code :: "WsPrismError \<Rightarrow> ClientCode" where
  "client_code (BadRequest _) = CC_BadRequest"
| "client_code AuthFailed = CC_AuthFailed"
| "client_code RateLimited = CC_RateLimited"
| "client_code PayloadTooLarge = CC_PayloadTooLarge"
| "client_code (NotAllowed _) = CC_NotAllowed"
| "client_code (ResourceExhausted _) = CC_ResourceExhausted"
| "client_code UnsupportedVersion = CC_UnsupportedVersion"
| "client_code (Internal _) = CC_Internal"

text \<open>The \<open>Display\<close> implementation derived from the \<open>#[error(...)]\<close> attributes.\<close>

fun error_to_string :: "WsPrismError \<Rightarrow> string" where
  "error_to_string (BadRequest m) = ''bad request: '' @ m"
| "error_to_string AuthFailed = ''auth failed''"
| "error_to_string RateLimited = ''rate limited''"
| "error_to_string PayloadTooLarge = ''payload too large''"
| "error_to_string (NotAllowed m) = ''not allowed: '' @ m"
| "error_to_string (ResourceExhausted m) = ''resource exhausted: '' @ m"
| "error_to_string UnsupportedVersion = ''unsupported protocol version''"
| "error_to_string (Internal m) = ''internal: '' @ m"

lemma as_str_inj: "as_str c = as_str d \<longleftrightarrow> c = d"
  by (cases c; cases d) simp_all

end
