(* ===== verification/Hot_Frame.thy ===== *)
theory Hot_Frame
  imports Ws_Error
begin

text \<open>
  The Hot Lane binary frame (\<open>crates/wsprism-core/src/protocol/hot.rs\<close>).  A \<open>Bytes\<close> buffer is
  the list of its remaining bytes; a read beyond its end panics in the \<open>Buf\<close> interface, so the
  readers return \<open>None\<close> there and the decoder returns an option whose \<open>None\<close> is the panic.
\<close>

record HotFrame =
  hf_v :: u8
  hf_svc_id :: u8
  hf_opcode :: u8
  hf_flags :: u8
  hf_seq :: "u32 option"
  hf_payload :: bytes

definition HOT_FLAG_SEQ_PRESENT :: u8 where
  "HOT_FLAG_SEQ_PRESENT = 1"

fun get_u8 :: "bytes \<Rightarrow> (u8 \<times> bytes) option" where
  "get_u8 [] = None"
| "get_u8 (b # bs) = Some (b, bs)"

definition u32_of_le :: "u8 \<Rightarrow> u8 \<Rightarrow> u8 \<Rightarrow> u8 \<Rightarrow> u32" where
  "u32_of_le a b c d =
     ucast a OR push_bit 8 (ucast b) OR push_bit 16 (ucast c) OR push_bit 24 (ucast d)"

fun get_u32_le :: "bytes \<Rightarrow> (u32 \<times> bytes) option" where
  "get_u32_le (a # b # c # d # bs) = Some (u32_of_le a b c d, bs)"
| "get_u32_le _ = None"

definition decode_hot_frame :: "bytes \<Rightarrow> HotFrame result option" where
  "decode_hot_frame buf =
     (if length buf < 4 then Some (Inl (BadRequest ''hot frame too short''))
      else Option.bind (get_u8 buf) (\<lambda>(v, buf).
        if v \<noteq> 1 then Some (Inl UnsupportedVersion)
        else Option.bind (get_u8 buf) (\<lambda>(svc_id, buf).
          Option.bind (get_u8 buf) (\<lambda>(opcode, buf).
            Option.bind (get_u8 buf) (\<lambda>(flags, buf).
              if flags AND HOT_FLAG_SEQ_PRESENT \<noteq> 0 then
                if length buf < 4 then Some (Inl (BadRequest ''seq flag set but missing u32''))
                else Option.bind (get_u32_le buf) (\<lambda>(seq, buf).
                  Some (Inr \<lparr>hf_v = v, hf_svc_id = svc_id, hf_opcode = opcode, hf_flags = flags,
                             hf_seq = Some seq, hf_payload = buf\<rparr>))
              else
                Some (Inr \<lparr>hf_v = v, hf_svc_id = svc_id, hf_opcode = opcode, hf_flags = flags,
                           hf_seq = None, hf_payload = buf\<rparr>))))))"

section \<open>The wire format as a reference definition\<close>

text \<open>
  The layout that \<open>docs/PROTOCOL.md\<close> documents: version, service, opcode, flags, the little-endian
  sequence number when its flag is set, and the payload.
\<close>

definition le_of_u32 :: "u32 \<Rightarrow> bytes" where
  "le_of_u32 w = [ucast w, ucast (drop_bit 8 w), ucast (drop_bit 16 w), ucast (drop_bit 24 w)]"

definition encode_hot_frame :: "HotFrame \<Rightarrow> bytes" where
  "encode_hot_frame f =
     [hf_v f, hf_svc_id f, hf_opcode f, hf_flags f]
     @ (case hf_seq f of None \<Rightarrow> [] | Some n \<Rightarrow> le_of_u32 n) @ hf_payload f"

definition hot_frame_wf :: "HotFrame \<Rightarrow> bool" where
  "hot_frame_wf f \<longleftrightarrow> hf_v f = 1 \<and> (hf_seq f \<noteq> None \<longleftrightarrow> hf_flags f AND HOT_FLAG_SEQ_PRESENT \<noteq> 0)"

lemma u32_of_le_of_u32:
  "u32_of_le (ucast w) (ucast (drop_bit 8 w)) (ucast (drop_bit 16 w)) (ucast (drop_bit 24 w)) = w"
  unfolding u32_of_le_def
proof (rule bit_word_eqI)
  fix n :: nat
  assume "n < LENGTH(32)"
  then consider "n < 8" | "8 \<le> n" "n < 16" | "16 \<le> n" "n < 24" | "24 \<le> n" "n < 32"
    by fastforce
  then show "bit (ucast (ucast w :: u8) OR push_bit 8 (ucast (ucast (drop_bit 8 w) :: u8))
      OR push_bit 16 (ucast (ucast (drop_bit 16 w) :: u8))
      OR push_bit 24 (ucast (ucast (drop_bit 24 w) :: u8)) :: u32) n = bit w n"
    by cases (auto simp: bit_simps not_less)
qed

lemma bit_u8_beyond [simp]: "8 \<le> n \<Longrightarrow> \<not> bit (a :: u8) n"
  using bit_imp_le_length [of a n] by auto

lemma le_of_u32_of_le: "le_of_u32 (u32_of_le a b c d) = [a, b, c, d]"
  unfolding le_of_u32_def u32_of_le_def
  by (auto intro!: bit_word_eqI simp: bit_simps not_less)

lemma u32_of_le_eq: "u32_of_le a b c d = w \<longleftrightarrow> le_of_u32 w = [a, b, c, d]"
  using u32_of_le_of_u32 [of w] le_of_u32_of_le [of a b c d] by (auto simp: le_of_u32_def)

text \<open>With four bytes present the header reads succeed, so the decoder is a case distinction.\<close>

lemma decode_hot_frame_header:
  "decode_hot_frame (v # s # p # g # rest) =
     Some (if v \<noteq> 1 then Inl UnsupportedVersion
           else if g AND HOT_FLAG_SEQ_PRESENT \<noteq> 0 then
             (case rest of
                a # b # c # d # payload \<Rightarrow>
                  Inr \<lparr>hf_v = 1, hf_svc_id = s, hf_opcode = p, hf_flags = g,
                       hf_seq = Some (u32_of_le a b c d), hf_payload = payload\<rparr>
              | _ \<Rightarrow> Inl (BadRequest ''seq flag set but missing u32''))
           else Inr \<lparr>hf_v = 1, hf_svc_id = s, hf_opcode = p, hf_flags = g,
                     hf_seq = None, hf_payload = rest\<rparr>)"
  by (auto simp: decode_hot_frame_def split: list.splits)

lemma four_bytes_cases:
  obtains (short) "length (buf :: 'a list) < 4"
    | (full) v s p g rest where "buf = v # s # p # g # rest"
proof (cases "length buf < 4")
  case False
  then obtain v b1 where 1: "buf = v # b1" and "3 \<le> length b1" by (cases buf) auto
  then obtain s b2 where 2: "b1 = s # b2" and "2 \<le> length b2" by (cases b1) auto
  then obtain p b3 where 3: "b2 = p # b3" and "1 \<le> length b3" by (cases b2) auto
  then obtain g rest where "b3 = g # rest" by (cases b3) auto
  with 1 2 3 show ?thesis by (simp add: full)
qed (rule short)

lemma decode_hot_frame_short:
  "length buf < 4 \<Longrightarrow> decode_hot_frame buf = Some (Inl (BadRequest ''hot frame too short''))"
  by (simp add: decode_hot_frame_def)

lemma hot_frame_cases:
  obtains v s p g q payload where "f = \<lparr>hf_v = v, hf_svc_id = s, hf_opcode = p, hf_flags = g,
                                       hf_seq = q, hf_payload = payload\<rparr>"
  by (cases f) blast

lemma encode_hot_frame_length: "4 \<le> length (encode_hot_frame f)"
  by (simp add: encode_hot_frame_def)

lemma decode_hot_frame_total: "\<exists>r. decode_hot_frame buf = Some r"
  by (cases buf rule: four_bytes_cases) (auto simp: decode_hot_frame_short decode_hot_frame_header)

lemma decode_hot_frame_Inr:
  "decode_hot_frame buf = Some (Inr f) \<longleftrightarrow> hot_frame_wf f \<and> encode_hot_frame f = buf"
proof (cases buf rule: four_bytes_cases)
  case short
  then show ?thesis using encode_hot_frame_length [of f] by (auto simp: decode_hot_frame_short)
next
  case (full v s p g rest)
  obtain v' s' p' g' q' payload' where f: "f = \<lparr>hf_v = v', hf_svc_id = s', hf_opcode = p',
      hf_flags = g', hf_seq = q', hf_payload = payload'\<rparr>"
    by (rule hot_frame_cases)
  show ?thesis
    unfolding full decode_hot_frame_header f
    by (auto simp: hot_frame_wf_def encode_hot_frame_def u32_of_le_eq le_of_u32_def
        split: list.splits option.splits if_splits)
qed

lemma decode_hot_frame_Inl_code:
  "decode_hot_frame buf = Some (Inl e) \<Longrightarrow> client_code e \<in> {CC_BadRequest, CC_UnsupportedVersion}"
  by (cases buf rule: four_bytes_cases)
    (auto simp: decode_hot_frame_short decode_hot_frame_header split: if_splits list.splits)

section \<open>Properties\<close>

text \<open>
  The Hot Lane decoder is panic free: on every byte string it returns a frame or a
  structured error, never the panic of a read beyond the end of the buffer.
\<close>

theorem decode_hot_frame_no_panic: "decode_hot_frame buf \<noteq> None"
  using decode_hot_frame_total [of buf] by auto

text \<open>
  C12: The decoder accepts exactly the encodings of well-formed frames and returns the frame that
  was encoded: decoding inverts the documented wire format, and every accepted byte string is the
  encoding of the frame it yields (no byte is lost, reordered or invented).
\<close>

theorem decode_hot_frame_iff_encode:
  "decode_hot_frame buf = Some (Inr f) \<longleftrightarrow> hot_frame_wf f \<and> encode_hot_frame f = buf"
  by (rule decode_hot_frame_Inr)

text \<open>
  The errors of the decoder, exactly: fewer than four bytes, a version byte other than 1, or a
  sequence flag with fewer than four bytes after the header; the version is looked at before the
  flags.
\<close>

theorem decode_hot_frame_errors:
  "decode_hot_frame buf = Some (Inl e) \<longleftrightarrow>
     length buf < 4 \<and> e = BadRequest ''hot frame too short''
   \<or> 4 \<le> length buf \<and> buf ! 0 \<noteq> 1 \<and> e = UnsupportedVersion
   \<or> 4 \<le> length buf \<and> buf ! 0 = 1 \<and> buf ! 3 AND HOT_FLAG_SEQ_PRESENT \<noteq> 0 \<and> length buf < 8
     \<and> e = BadRequest ''seq flag set but missing u32''"
proof (cases buf rule: four_bytes_cases)
  case short
  then show ?thesis by (auto simp: decode_hot_frame_short)
next
  case (full v s p g rest)
  show ?thesis
    unfolding full decode_hot_frame_header
    by (auto simp: numeral_eq_Suc split: list.splits)
qed

end
