(* ===== verification/Codec.thy ===== *)
theory Codec
  imports Hot_Frame
begin

text \<open>
  The Ext Lane envelope (\<open>crates/wsprism-core/src/protocol/text.rs\<close>), the WebSocket messages and
  the decode-once codec (\<open>crates/wsprism-gateway/src/transport/codec.rs\<close>).  JSON parsing is the
  \<open>serde_json\<close> crate: a function from the text to an error message or an envelope, and an argument
  of the codec.
\<close>

record Envelope =
  env_v :: u8
  env_svc :: string
  env_msg_type :: string
  env_flags :: u32
  env_seq :: "u64 option"
  env_room :: "string option"
  env_data :: "string option"

type_synonym envelope_parser = "string \<Rightarrow> string + Envelope"

datatype Message =
    MText string
  | MBinary bytes
  | MPing bytes
  | MPong bytes
  | MClose "(u16 \<times> string) option"

datatype Inbound =
    InText Envelope usize
  | InHot HotFrame usize
  | InPing bytes
  | InPong bytes
  | InClose

text \<open>\<open>None\<close> is a panic of the Hot Lane decoder, as in \<^const>\<open>decode_hot_frame\<close>.\<close>

fun decode :: "envelope_parser \<Rightarrow> Message \<Rightarrow> Inbound result option" where
  "decode parse (MText s) =
     Some (case parse s of
             Inl e \<Rightarrow> Inl (BadRequest (''invalid envelope json: '' @ e))
           | Inr env \<Rightarrow> Inr (InText env (length s)))"
| "decode parse (MBinary b) =
     Option.bind (decode_hot_frame b) (\<lambda>r. Some (and_then r (\<lambda>frame. Inr (InHot frame (length b)))))"
| "decode parse (MPing v) = Some (Inr (InPing v))"
| "decode parse (MPong v) = Some (Inr (InPong v))"
| "decode parse (MClose _) = Some (Inr InClose)"

lemma decode_total: "\<exists>r. decode parse m = Some r"
proof (cases m)
  case (MBinary b)
  then show ?thesis using decode_hot_frame_total [of b] by auto
qed auto

lemma decode_Hot_iff:
  "decode parse m = Some (Inr (InHot f n)) \<longleftrightarrow>
     (\<exists>b. m = MBinary b \<and> n = length b \<and> decode_hot_frame b = Some (Inr f))"
  by (cases m) (auto simp: and_then_eq_Inr bind_eq_Some_conv split: sum.splits)

lemma decode_Text_iff:
  "decode parse m = Some (Inr (InText env n)) \<longleftrightarrow>
     (\<exists>s. m = MText s \<and> n = length s \<and> parse s = Inr env)"
  by (cases m) (auto simp: and_then_eq_Inr bind_eq_Some_conv split: sum.splits)

text \<open>
  C22: The codec never panics and separates the lanes: text frames and only they become envelopes,
  binary frames and only they become hot frames, each with the byte length of the frame it came
  from; and a frame the codec refuses is reported as \<open>BAD_REQUEST\<close> or \<open>UNSUPPORTED_VERSION\<close>,
  the second only for a binary frame.
\<close>

theorem decode_lanes:
  "(\<exists>r. decode parse m = Some r)
   \<and> (decode parse m = Some (Inr (InText env n)) \<longleftrightarrow>
        (\<exists>s. m = MText s \<and> n = length s \<and> parse s = Inr env))
   \<and> (decode parse m = Some (Inr (InHot f n)) \<longleftrightarrow>
        (\<exists>b. m = MBinary b \<and> n = length b \<and> hot_frame_wf f \<and> encode_hot_frame f = b))
   \<and> (decode parse m = Some (Inl e) \<longrightarrow>
        client_code e = CC_BadRequest
        \<or> client_code e = CC_UnsupportedVersion \<and> (\<exists>b. m = MBinary b))"
proof (intro conjI)
  show "\<exists>r. decode parse m = Some r" by (rule decode_total)
  show "decode parse m = Some (Inr (InText env n)) \<longleftrightarrow>
        (\<exists>s. m = MText s \<and> n = length s \<and> parse s = Inr env)"
    by (rule decode_Text_iff)
  show "decode parse m = Some (Inr (InHot f n)) \<longleftrightarrow>
        (\<exists>b. m = MBinary b \<and> n = length b \<and> hot_frame_wf f \<and> encode_hot_frame f = b)"
    by (simp add: decode_Hot_iff decode_hot_frame_Inr)
  show "decode parse m = Some (Inl e) \<longrightarrow>
        client_code e = CC_BadRequest
        \<or> client_code e = CC_UnsupportedVersion \<and> (\<exists>b. m = MBinary b)"
    by (cases m) (auto simp: and_then_eq_Inl bind_eq_Some_conv split: sum.splits
        dest: decode_hot_frame_Inl_code)
qed

theorem decode_lanes_witness:
  "decode (\<lambda>_. Inl ''eof'') (MBinary [2, 1, 1, 0]) = Some (Inl UnsupportedVersion)
   \<and> (client_code UnsupportedVersion = CC_BadRequest
      \<or> client_code UnsupportedVersion = CC_UnsupportedVersion
        \<and> (\<exists>b. MBinary [2, 1, 1, 0] = MBinary b))"
proof -
  have h: "decode (\<lambda>_. Inl ''eof'') (MBinary [2, 1, 1, 0]) = Some (Inl UnsupportedVersion)"
    by (simp add: decode_hot_frame_header)
  then show ?thesis
    using decode_lanes [of "\<lambda>_. Inl ''eof''" "MBinary [2, 1, 1, 0]" _ _ _ UnsupportedVersion]
    by blast
qed

end
