(* ===== verification/Session_Registry.thy ===== *)
theory Session_Registry
  imports Ws_Error
begin

text \<open>
  The session registry (\<open>crates/wsprism-gateway/src/realtime/core/session_registry.rs\<close>): session
  key to connection, user key to session keys, and a session counter per tenant.  Each operation is
  one atomic step; a connection is the identity of its outbound channel.
\<close>

record Connection =
  conn_tx :: nat

record SessionEntry =
  se_conn :: Connection
  se_created_seq :: u64
  se_tenant_id :: string

record SessionRegistry =
  sr_sessions :: "string \<rightharpoonup> SessionEntry"
  sr_user_index :: "string \<rightharpoonup> string set"
  sr_tenant_counts :: "string \<rightharpoonup> u64"
  sr_seq :: u64

definition SessionRegistry_new :: SessionRegistry where
  "SessionRegistry_new =
     \<lparr>sr_sessions = Map.empty, sr_user_index = Map.empty, sr_tenant_counts = Map.empty, sr_seq = 1\<rparr>"

definition try_insert ::
  "string \<Rightarrow> string \<Rightarrow> string \<Rightarrow> Connection \<Rightarrow> u64 \<Rightarrow> SessionRegistry \<Rightarrow> unit result \<times> SessionRegistry" where
  "try_insert tenant_id user_key session_key conn max_total r =
     (let counter = (case sr_tenant_counts r tenant_id of None \<Rightarrow> 0 | Some c \<Rightarrow> c);
          r = r\<lparr>sr_tenant_counts := (sr_tenant_counts r)(tenant_id \<mapsto> counter)\<rparr>
      in
        if max_total > 0 \<and> counter \<ge> max_total then
          (Inl (ResourceExhausted ''tenant session limit reached''), r)
        else
          (let counter = counter + 1;
               r = r\<lparr>sr_tenant_counts := (sr_tenant_counts r)(tenant_id \<mapsto> counter)\<rparr>
           in
             if max_total > 0 \<and> counter > max_total then
               (Inl (ResourceExhausted ''tenant session limit reached (race)''),
                r\<lparr>sr_tenant_counts := (sr_tenant_counts r)(tenant_id \<mapsto> counter - 1)\<rparr>)
             else
               (let r = r\<lparr>sr_user_index := dm_add (sr_user_index r) user_key session_key\<rparr>;
                    created_seq = sr_seq r;
                    r = r\<lparr>sr_seq := sr_seq r + 1\<rparr>
                in (Inr (),
                    r\<lparr>sr_sessions := (sr_sessions r)(session_key \<mapsto>
                        \<lparr>se_conn = conn, se_created_seq = created_seq, se_tenant_id = tenant_id\<rparr>)\<rparr>))))"

definition remove_session ::
  "string \<Rightarrow> string \<Rightarrow> SessionRegistry \<Rightarrow> Connection option \<times> SessionRegistry" where
  "remove_session user_key session_key r =
     (let r = r\<lparr>sr_user_index := dm_del (sr_user_index r) user_key session_key\<rparr> in
      case sr_sessions r session_key of
        None \<Rightarrow> (None, r)
      | Some entry \<Rightarrow>
          (let r = r\<lparr>sr_sessions := (sr_sessions r)(session_key := None)\<rparr>;
               r = (case sr_tenant_counts r (se_tenant_id entry) of
                      None \<Rightarrow> r
                    | Some c \<Rightarrow>
                        r\<lparr>sr_tenant_counts := (sr_tenant_counts r)(se_tenant_id entry \<mapsto> c - 1)\<rparr>)
           in (Some (se_conn entry), r)))"

definition get_session :: "SessionRegistry \<Rightarrow> string \<Rightarrow> Connection option" where
  "get_session r session_key = map_option se_conn (sr_sessions r session_key)"

definition get_user_sessions :: "iter_order \<Rightarrow> SessionRegistry \<Rightarrow> string \<Rightarrow> Connection list" where
  "get_user_sessions it r user_key =
     (case sr_user_index r user_key of
        None \<Rightarrow> []
      | Some S \<Rightarrow> List.map_filter (get_session r) (it S))"

definition count_user_sessions :: "SessionRegistry \<Rightarrow> string \<Rightarrow> usize" where
  "count_user_sessions r user_key =
     (case sr_user_index r user_key of None \<Rightarrow> 0 | Some S \<Rightarrow> card S)"

definition count_tenant_sessions :: "SessionRegistry \<Rightarrow> string \<Rightarrow> u64" where
  "count_tenant_sessions r tenant_id =
     (case sr_tenant_counts r tenant_id of None \<Rightarrow> 0 | Some c \<Rightarrow> c)"

definition all_sessions :: "iter_order \<Rightarrow> SessionRegistry \<Rightarrow> (string \<times> Connection) list" where
  "all_sessions it r =
     List.map_filter (\<lambda>k. map_option (\<lambda>e. (k, se_conn e)) (sr_sessions r k)) (it (dom (sr_sessions r)))"

definition len_sessions :: "SessionRegistry \<Rightarrow> usize" where
  "len_sessions r = card (dom (sr_sessions r))"

fun find_victim ::
  "(string \<rightharpoonup> SessionEntry) \<Rightarrow> string list \<Rightarrow> string option \<Rightarrow> u64 \<Rightarrow> string option" where
  "find_victim ss [] victim_key victim_seq = victim_key"
| "find_victim ss (k # keys) victim_key victim_seq =
     (case ss k of
        None \<Rightarrow> find_victim ss keys victim_key victim_seq
      | Some e \<Rightarrow>
          if se_created_seq e < victim_seq then find_victim ss keys (Some k) (se_created_seq e)
          else find_victim ss keys victim_key victim_seq)"

definition evict_oldest ::
  "iter_order \<Rightarrow> string \<Rightarrow> SessionRegistry \<Rightarrow> (string \<times> Connection) option \<times> SessionRegistry" where
  "evict_oldest it user_key r =
     (case sr_user_index r user_key of
        None \<Rightarrow> (None, r)
      | Some S \<Rightarrow>
          (case find_victim (sr_sessions r) (it S) None (-1) of
             None \<Rightarrow> (None, r)
           | Some victim_key \<Rightarrow>
               (let (conn, r) = remove_session user_key victim_key r in
                (map_option (\<lambda>c. (victim_key, c)) conn, r))))"

section \<open>Invariant\<close>

text \<open>
  \<open>own\<close> gives the user key of a session key.  The index of a user is exactly the set of its sessions, and
  the creation numbers are distinct and below the next one.  The counter of a tenant is the number of
  its sessions (modulo the width of the counter) as long as no key is inserted while it is in use.
\<close>

definition tenant_sessions :: "SessionRegistry \<Rightarrow> string \<Rightarrow> string set" where
  "tenant_sessions r t = {s. \<exists>e. sr_sessions r s = Some e \<and> se_tenant_id e = t}"

definition user_sessions :: "(string \<Rightarrow> string) \<Rightarrow> SessionRegistry \<Rightarrow> string \<Rightarrow> string set" where
  "user_sessions own r u = {s \<in> dom (sr_sessions r). own s = u}"

definition reg_inv :: "(string \<Rightarrow> string) \<Rightarrow> SessionRegistry \<Rightarrow> bool" where
  "reg_inv own r \<longleftrightarrow>
     finite (dom (sr_sessions r)) \<and> dm_ok (sr_user_index r)
   \<and> (\<forall>u. dm_get (sr_user_index r) u = user_sessions own r u)
   \<and> (\<forall>s e. sr_sessions r s = Some e \<longrightarrow>
        se_created_seq e < sr_seq r \<and> sr_tenant_counts r (se_tenant_id e) \<noteq> None)
   \<and> inj_on (\<lambda>s. map_option se_created_seq (sr_sessions r s)) (dom (sr_sessions r))"

definition counts_exact :: "SessionRegistry \<Rightarrow> bool" where
  "counts_exact r \<longleftrightarrow> (\<forall>t. count_tenant_sessions r t = of_nat (card (tenant_sessions r t)))"

lemma reg_invD:
  assumes "reg_inv own r"
  shows "finite (dom (sr_sessions r))" "dm_ok (sr_user_index r)"
    "dm_get (sr_user_index r) u = user_sessions own r u"
    "sr_sessions r s = Some e \<Longrightarrow> se_created_seq e < sr_seq r"
    "inj_on (\<lambda>s. map_option se_created_seq (sr_sessions r s)) (dom (sr_sessions r))"
    "sr_sessions r s = Some e \<Longrightarrow> sr_tenant_counts r (se_tenant_id e) \<noteq> None"
  using assms by (auto simp: reg_inv_def)

lemma finite_tenant_sessions: "finite (dom (sr_sessions r)) \<Longrightarrow> finite (tenant_sessions r t)"
  by (rule finite_subset [of _ "dom (sr_sessions r)"]) (auto simp: tenant_sessions_def)

lemma finite_user_sessions: "finite (dom (sr_sessions r)) \<Longrightarrow> finite (user_sessions own r u)"
  by (simp add: user_sessions_def)

text \<open>In the sequential semantics the second look at the counter never fails.\<close>

lemma try_insert_eq:
  "try_insert t u s c m r =
     (if m > 0 \<and> count_tenant_sessions r t \<ge> m then
        (Inl (ResourceExhausted ''tenant session limit reached''),
         r\<lparr>sr_tenant_counts := (sr_tenant_counts r)(t \<mapsto> count_tenant_sessions r t)\<rparr>)
      else
        (Inr (),
         r\<lparr>sr_tenant_counts := (sr_tenant_counts r)(t \<mapsto> count_tenant_sessions r t + 1),
           sr_user_index := dm_add (sr_user_index r) u s, sr_seq := sr_seq r + 1,
           sr_sessions := (sr_sessions r)(s \<mapsto>
             \<lparr>se_conn = c, se_created_seq = sr_seq r, se_tenant_id = t\<rparr>)\<rparr>))"
proof -
  have "\<not> count_tenant_sessions r t + 1 > m" if "count_tenant_sessions r t < m"
    using that by (simp add: not_less inc_le)
  then show ?thesis
    by (auto simp: try_insert_def Let_def count_tenant_sessions_def not_le)
qed

lemma remove_session_eq:
  "remove_session u s r =
     (map_option se_conn (sr_sessions r s),
      r\<lparr>sr_user_index := dm_del (sr_user_index r) u s, sr_sessions := (sr_sessions r)(s := None),
        sr_tenant_counts :=
          (case sr_sessions r s of
             None \<Rightarrow> sr_tenant_counts r
           | Some e \<Rightarrow>
               (case sr_tenant_counts r (se_tenant_id e) of
                  None \<Rightarrow> sr_tenant_counts r
                | Some c \<Rightarrow> (sr_tenant_counts r)(se_tenant_id e \<mapsto> c - 1)))\<rparr>)"
  by (auto simp: remove_session_def Let_def fun_upd_idem split: option.splits)

lemma reg_inv_new: "reg_inv own SessionRegistry_new"
  by (simp add: reg_inv_def SessionRegistry_new_def user_sessions_def dm_simps)

lemma counts_exact_new: "counts_exact SessionRegistry_new"
  by (simp add: counts_exact_def SessionRegistry_new_def tenant_sessions_def count_tenant_sessions_def)

lemma try_insert_tables:
  assumes "\<not> (m > 0 \<and> count_tenant_sessions r t \<ge> m)"
  shows "snd (try_insert t u s c m r) = r\<lparr>sr_tenant_counts := (sr_tenant_counts r)(t \<mapsto> count_tenant_sessions r t + 1),
           sr_user_index := dm_add (sr_user_index r) u s, sr_seq := sr_seq r + 1,
           sr_sessions := (sr_sessions r)(s \<mapsto>
             \<lparr>se_conn = c, se_created_seq = sr_seq r, se_tenant_id = t\<rparr>)\<rparr>"
  using assms by (auto simp: try_insert_eq)

lemma reg_inv_insert:
  assumes inv: "reg_inv own r" and "own s = u" and seq: "sr_seq r \<noteq> -1"
  shows "reg_inv own (snd (try_insert t u s c m r))"
proof (cases "m > 0 \<and> count_tenant_sessions r t \<ge> m")
  case True
  then show ?thesis using inv by (auto simp: try_insert_eq reg_inv_def user_sessions_def)
next
  case False
  let ?r = "snd (try_insert t u s c m r)"
  note r = try_insert_tables [OF False]
  have lt: "sr_seq r < sr_seq r + 1"  using seq by (rule word_less_plus_one)
  have idx: "dm_get (sr_user_index ?r) u' = user_sessions own ?r u'" for u'
    using reg_invD(3) [OF inv] assms(2) by (auto simp: r dm_simps user_sessions_def)
  have below: "se_created_seq e < sr_seq ?r \<and> sr_tenant_counts ?r (se_tenant_id e) \<noteq> None"
    if "sr_sessions ?r s' = Some e" for s' e
    using that lt reg_invD(4,6) [OF inv, of s' e] by (auto simp: r split: if_splits)
  have "inj_on (\<lambda>s. map_option se_created_seq (sr_sessions ?r s)) (dom (sr_sessions ?r))"
    using reg_invD(5) [OF inv] reg_invD(4) [OF inv]
    by (auto simp: r inj_on_def dom_def split: if_splits) (metis less_irrefl)+
  with idx below reg_invD(1,2) [OF inv] show ?thesis
    unfolding reg_inv_def by (auto simp: r)
qed

lemma counts_exact_insert:
  assumes inv: "reg_inv own r" and exact: "counts_exact r" and fresh: "sr_sessions r s = None"
  shows "counts_exact (snd (try_insert t u s c m r))"
proof (cases "m > 0 \<and> count_tenant_sessions r t \<ge> m")
  case True
  then show ?thesis
    using exact by (auto simp: try_insert_eq counts_exact_def tenant_sessions_def count_tenant_sessions_def)
next
  case False
  let ?r = "snd (try_insert t u s c m r)"
  note r = try_insert_tables [OF False]
  have ts: "tenant_sessions ?r t' = (if t' = t then insert s (tenant_sessions r t) else tenant_sessions r t')" for t'
    using fresh by (auto simp: r tenant_sessions_def)
  have "s \<notin> tenant_sessions r t" using fresh by (simp add: tenant_sessions_def)
  then show ?thesis
    using exact of_nat_card_insert [OF finite_tenant_sessions [OF reg_invD(1) [OF inv]], where 'a = 64]
    unfolding counts_exact_def by (simp add: ts) (simp add: r count_tenant_sessions_def)
qed

lemma reg_inv_remove:
  assumes inv: "reg_inv own r" and "own s = u"
  shows "reg_inv own (snd (remove_session u s r))"
proof -
  let ?r = "snd (remove_session u s r)"
  have sess: "sr_sessions ?r = (sr_sessions r)(s := None)" "sr_seq ?r = sr_seq r"
    by (simp_all add: remove_session_eq)
  have idx: "dm_get (sr_user_index ?r) u' = user_sessions own ?r u'" for u'
    using reg_invD(3) [OF inv] assms(2)
    by (auto simp: remove_session_eq dm_simps user_sessions_def)
  have "inj_on (\<lambda>s. map_option se_created_seq (sr_sessions ?r s)) (dom (sr_sessions ?r))"
    using reg_invD(5) [OF inv] by (auto simp: sess inj_on_def)
  moreover have "se_created_seq e < sr_seq ?r \<and> sr_tenant_counts ?r (se_tenant_id e) \<noteq> None"
    if "sr_sessions ?r s' = Some e" for s' e
    using that reg_invD(4,6) [OF inv, of s' e]
    by (auto simp: remove_session_eq split: if_splits option.splits)
  moreover have "finite (dom (sr_sessions ?r))" "dm_ok (sr_user_index ?r)"
    using reg_invD(1,2) [OF inv] by (auto simp: remove_session_eq)
  ultimately show ?thesis using idx unfolding reg_inv_def by blast
qed

lemma counts_exact_remove:
  assumes inv: "reg_inv own r" and exact: "counts_exact r"
  shows "counts_exact (snd (remove_session u s r))"
proof -
  let ?r = "snd (remove_session u s r)"
  have ts: "tenant_sessions ?r t' = tenant_sessions r t' - {s}" for t'
    by (auto simp: remove_session_eq tenant_sessions_def)
  have "count_tenant_sessions ?r t' = of_nat (card (tenant_sessions ?r t'))" for t'
  proof (cases "s \<in> tenant_sessions r t'")
    case True
    then obtain e where e: "sr_sessions r s = Some e" "se_tenant_id e = t'"
      by (auto simp: tenant_sessions_def)
    then obtain n where "sr_tenant_counts r t' = Some n" using reg_invD(6) [OF inv e(1)] by auto
    with e have "count_tenant_sessions ?r t' = count_tenant_sessions r t' - 1"
      by (simp add: remove_session_eq count_tenant_sessions_def)
    with True show ?thesis
      using exact of_nat_card_remove [OF finite_tenant_sessions [OF reg_invD(1) [OF inv]] True, where 'a = 64]
      by (simp add: ts counts_exact_def)
  next
    case False
    then have "count_tenant_sessions ?r t' = count_tenant_sessions r t'"
      by (auto simp: remove_session_eq count_tenant_sessions_def tenant_sessions_def split: option.splits)
    with False show ?thesis using exact by (simp add: ts counts_exact_def)
  qed
  then show ?thesis by (simp add: counts_exact_def)
qed

section \<open>Eviction\<close>

lemma find_victim_min:
  assumes "find_victim ss keys vk vs = Some k"
  shows "(vk = Some k \<and> (\<forall>x \<in> set keys. \<forall>e. ss x = Some e \<longrightarrow> vs \<le> se_created_seq e))
    \<or> (k \<in> set keys \<and> (\<exists>e. ss k = Some e \<and> se_created_seq e < vs
        \<and> (\<forall>x \<in> set keys. \<forall>e'. ss x = Some e' \<longrightarrow> se_created_seq e \<le> se_created_seq e')))"
  using assms
proof (induction ss keys vk vs rule: find_victim.induct)
  case (2 ss x keys vk vs)
  show ?case
  proof (cases "ss x")
    case None
    with 2 show ?thesis by auto
  next
    case (Some e)
    show ?thesis
    proof (cases "se_created_seq e < vs")
      case True
      with 2 Some show ?thesis by fastforce
    next
      case False
      with 2 Some show ?thesis by fastforce
    qed
  qed
qed simp

lemma find_victim_None:
  "find_victim ss keys vk vs = None \<Longrightarrow>
     vk = None \<and> (\<forall>x \<in> set keys. \<forall>e. ss x = Some e \<longrightarrow> vs \<le> se_created_seq e)"
  by (induction ss keys vk vs rule: find_victim.induct) (auto split: option.splits if_splits)

lemma reg_inv_below_max: "reg_inv own r \<Longrightarrow> sr_sessions r s = Some e \<Longrightarrow> se_created_seq e < -1"
  by (meson max_word_max order_less_le_trans reg_invD(4))

lemma find_victim_user:
  assumes inv: "reg_inv own r" and it: "iter_ok it"
  shows "find_victim (sr_sessions r) (it (user_sessions own r u)) None (-1) = None
      \<longleftrightarrow> user_sessions own r u = {}"
    and "find_victim (sr_sessions r) (it (user_sessions own r u)) None (-1) = Some k \<Longrightarrow>
      k \<in> user_sessions own r u
      \<and> (\<forall>x \<in> user_sessions own r u. \<forall>e e'. sr_sessions r k = Some e \<longrightarrow> sr_sessions r x = Some e'
            \<longrightarrow> se_created_seq e \<le> se_created_seq e')"
proof -
  let ?f = "find_victim (sr_sessions r) (it (user_sessions own r u)) None (-1)"
  have set: "set (it (user_sessions own r u)) = user_sessions own r u"
    using iter_ok_set [OF it] finite_user_sessions [OF reg_invD(1) [OF inv]] by blast
  show some: "k \<in> user_sessions own r u
      \<and> (\<forall>x \<in> user_sessions own r u. \<forall>e e'. sr_sessions r k = Some e \<longrightarrow> sr_sessions r x = Some e'
            \<longrightarrow> se_created_seq e \<le> se_created_seq e')" if "?f = Some k" for k
    using find_victim_min [OF that] set by auto
  show "?f = None \<longleftrightarrow> user_sessions own r u = {}"
  proof
    assume "?f = None"
    then have "\<forall>x \<in> user_sessions own r u. \<forall>e. sr_sessions r x = Some e \<longrightarrow> -1 \<le> se_created_seq e"
      using find_victim_None set by blast
    then show "user_sessions own r u = {}"
      using reg_inv_below_max [OF inv] by (fastforce simp: user_sessions_def)
  next
    assume "user_sessions own r u = {}"
    then show "?f = None" using some by (cases ?f) auto
  qed
qed

lemma reg_inv_index:
  "reg_inv own r \<Longrightarrow> sr_user_index r u =
     (if user_sessions own r u = {} then None else Some (user_sessions own r u))"
  by (metis dm_ok_None dm_ok_Some reg_invD(2,3))

lemma evict_oldest_eq:
  assumes inv: "reg_inv own r" and it: "iter_ok it" and k: "k \<in> user_sessions own r u"
    and e: "sr_sessions r k = Some e"
    and min: "\<And>x e'. x \<in> user_sessions own r u \<Longrightarrow> sr_sessions r x = Some e' \<Longrightarrow> se_created_seq e \<le> se_created_seq e'"
  shows "evict_oldest it u r = (Some (k, se_conn e), snd (remove_session u k r))"
proof -
  let ?f = "find_victim (sr_sessions r) (it (user_sessions own r u)) None (-1)"
  obtain k' where f: "?f = Some k'" using find_victim_user(1) [OF inv it, of u] k by fastforce
  note k' = find_victim_user(2) [OF inv it f]
  then obtain e' where e': "sr_sessions r k' = Some e'" by (auto simp: user_sessions_def)
  with k' min [of k'] k e have "se_created_seq e = se_created_seq e'" by force
  then have "k = k'"
    using reg_invD(5) [OF inv] e e' by (auto simp: inj_on_def dom_def)
  with f k e show ?thesis
    by (auto simp: evict_oldest_def reg_inv_index [OF inv] remove_session_eq)
qed

lemma oldest_exists:
  assumes inv: "reg_inv own r" and ne: "user_sessions own r u \<noteq> {}"
  obtains k e where "k \<in> user_sessions own r u" "sr_sessions r k = Some e"
    "\<And>x e'. x \<in> user_sessions own r u \<Longrightarrow> sr_sessions r x = Some e' \<Longrightarrow> se_created_seq e \<le> se_created_seq e'"
proof -
  obtain k where f: "find_victim (sr_sessions r) (sorted_list_of_set (user_sessions own r u)) None (-1) = Some k"
    using find_victim_user(1) [OF inv iter_ok_sorted, of u] ne by fastforce
  note k = find_victim_user(2) [OF inv iter_ok_sorted f]
  then obtain e where "sr_sessions r k = Some e" by (auto simp: user_sessions_def)
  with k that show ?thesis by blast
qed

lemma evict_oldest_none:
  "reg_inv own r \<Longrightarrow> user_sessions own r u = {} \<Longrightarrow> evict_oldest it u r = (None, r)"
  by (simp add: evict_oldest_def reg_inv_index)

lemma evict_oldest_cases_inv:
  assumes inv: "reg_inv own r" and it: "iter_ok it"
  obtains (none) "evict_oldest it u r = (None, r)"
  | (victim) k where "own k = u" "snd (evict_oldest it u r) = snd (remove_session u k r)"
proof (cases "user_sessions own r u = {}")
  case True
  with none show ?thesis by (simp add: evict_oldest_none [OF inv])
next
  case False
  then obtain k e where k: "k \<in> user_sessions own r u" "sr_sessions r k = Some e"
    "\<And>x e'. x \<in> user_sessions own r u \<Longrightarrow> sr_sessions r x = Some e' \<Longrightarrow> se_created_seq e \<le> se_created_seq e'"
    using oldest_exists [OF inv] by blast
  then have "own k = u" by (simp add: user_sessions_def)
  with evict_oldest_eq [OF inv it k] victim show ?thesis by simp
qed

lemma reg_inv_evict: "reg_inv own r \<Longrightarrow> iter_ok it \<Longrightarrow> reg_inv own (snd (evict_oldest it u r))"
  by (cases rule: evict_oldest_cases_inv [of own r it u]) (auto simp: reg_inv_remove)

lemma counts_exact_evict:
  "reg_inv own r \<Longrightarrow> iter_ok it \<Longrightarrow> counts_exact r \<Longrightarrow> counts_exact (snd (evict_oldest it u r))"
  by (cases rule: evict_oldest_cases_inv [of own r it u]) (auto simp: counts_exact_remove)

section \<open>Reachable registries\<close>

text \<open>
  Any sequence of the three updates from the empty registry, where a session key always comes with
  the user key that owns it, and the creation counter has not reached the end of its range.  Inserting
  a key that is in use, which the source allows, replaces its entry.
\<close>

inductive reg_step :: "(string \<Rightarrow> string) \<Rightarrow> iter_order \<Rightarrow> SessionRegistry \<Rightarrow> SessionRegistry \<Rightarrow> bool"
  for own it where
  step_insert: "own s = u \<Longrightarrow> sr_seq r \<noteq> -1 \<Longrightarrow> reg_step own it r (snd (try_insert t u s c m r))"
| step_remove: "own s = u \<Longrightarrow> reg_step own it r (snd (remove_session u s r))"
| step_evict: "reg_step own it r (snd (evict_oldest it u r))"

inductive reg_reach :: "(string \<Rightarrow> string) \<Rightarrow> iter_order \<Rightarrow> SessionRegistry \<Rightarrow> bool" for own it where
  reach_new: "reg_reach own it SessionRegistry_new"
| reach_step: "reg_reach own it r \<Longrightarrow> reg_step own it r r' \<Longrightarrow> reg_reach own it r'"

inductive_cases reg_stepE: "reg_step own it r r'"

lemma reg_step_inv: "reg_step own it r r' \<Longrightarrow> iter_ok it \<Longrightarrow> reg_inv own r \<Longrightarrow> reg_inv own r'"
  by (erule reg_stepE) (auto intro: reg_inv_insert reg_inv_remove reg_inv_evict)

lemma reg_reach_inv: "reg_reach own it r \<Longrightarrow> iter_ok it \<Longrightarrow> reg_inv own r"
  by (induction rule: reg_reach.induct) (auto intro: reg_inv_new reg_step_inv)

text \<open>Histories in which no key is inserted while it is in use.\<close>

inductive reuse_free :: "(string \<Rightarrow> string) \<Rightarrow> iter_order \<Rightarrow> SessionRegistry \<Rightarrow> bool" for own it where
  free_new: "reuse_free own it SessionRegistry_new"
| free_insert: "reuse_free own it r \<Longrightarrow> own s = u \<Longrightarrow> sr_seq r \<noteq> -1 \<Longrightarrow> sr_sessions r s = None \<Longrightarrow>
     reuse_free own it (snd (try_insert t u s c m r))"
| free_remove: "reuse_free own it r \<Longrightarrow> own s = u \<Longrightarrow> reuse_free own it (snd (remove_session u s r))"
| free_evict: "reuse_free own it r \<Longrightarrow> reuse_free own it (snd (evict_oldest it u r))"

lemma reuse_free_inv: "reuse_free own it r \<Longrightarrow> iter_ok it \<Longrightarrow> reg_inv own r \<and> counts_exact r"
  by (induction rule: reuse_free.induct)
    (auto intro: reg_inv_new reg_inv_insert reg_inv_remove reg_inv_evict
      counts_exact_new counts_exact_insert counts_exact_remove counts_exact_evict)

lemma count_user_sessions_eq: "reg_inv own r \<Longrightarrow> count_user_sessions r u = card (user_sessions own r u)"
  by (simp add: count_user_sessions_def reg_inv_index)

lemma set_map_filter_eq: "set (List.map_filter f xs) = {y. \<exists>x \<in> set xs. f x = Some y}"
  by (force simp: map_filter_def)

lemma get_user_sessions_set:
  assumes "reg_inv own r" and "iter_ok it"
  shows "set (get_user_sessions it r u) = {c. \<exists>s. own s = u \<and> get_session r s = Some c}"
proof -
  have "set (it (user_sessions own r u)) = user_sessions own r u"
    using iter_ok_set [OF assms(2)] finite_user_sessions [OF reg_invD(1) [OF assms(1)]] by blast
  then show ?thesis
    by (auto simp: get_user_sessions_def reg_inv_index [OF assms(1)] set_map_filter_eq
        user_sessions_def get_session_def split: if_splits)
qed

section \<open>An example\<close>

definition two_sessions :: SessionRegistry where
  "two_sessions =
     snd (try_insert ''acme'' ''acme::ann'' ''acme::ann::2'' \<lparr>conn_tx = 8\<rparr> 0
       (snd (try_insert ''acme'' ''acme::ann'' ''acme::ann::1'' \<lparr>conn_tx = 7\<rparr> 0 SessionRegistry_new)))"

lemma two_sessions_table:
  "sr_sessions two_sessions =
     [''acme::ann::1'' \<mapsto> \<lparr>se_conn = \<lparr>conn_tx = 7\<rparr>, se_created_seq = 1, se_tenant_id = ''acme''\<rparr>,
      ''acme::ann::2'' \<mapsto> \<lparr>se_conn = \<lparr>conn_tx = 8\<rparr>, se_created_seq = 2, se_tenant_id = ''acme''\<rparr>]"
  by (simp add: two_sessions_def try_insert_eq SessionRegistry_new_def)

lemma two_sessions_get:
  "get_session two_sessions s = Some c \<longleftrightarrow>
     s = ''acme::ann::1'' \<and> c = \<lparr>conn_tx = 7\<rparr> \<or> s = ''acme::ann::2'' \<and> c = \<lparr>conn_tx = 8\<rparr>"
proof (cases "s = ''acme::ann::2''")
  case False
  then show ?thesis by (cases "s = ''acme::ann::1''") (auto simp: get_session_def two_sessions_table)
qed (auto simp: get_session_def two_sessions_table)

lemma two_sessions_conns:
  "{s. get_session two_sessions s \<noteq> None} = {''acme::ann::1'', ''acme::ann::2''}"
  "{c. \<exists>s. get_session two_sessions s = Some c} = {\<lparr>conn_tx = 7\<rparr>, \<lparr>conn_tx = 8\<rparr>}"
  unfolding not_None_eq two_sessions_get by blast+

lemma two_sessions_tenant: "tenant_sessions two_sessions ''acme'' = {''acme::ann::1'', ''acme::ann::2''}"
proof -
  have "tenant_sessions two_sessions ''acme'' = dom (sr_sessions two_sessions)"
    by (auto simp: tenant_sessions_def two_sessions_table split: if_splits)
  then show ?thesis by (simp add: two_sessions_table insert_commute)
qed

lemma not_two_le_one: "\<not> (2 :: u64) \<le> 1" "(2 :: u64) \<noteq> -1"
  by code_simp+

lemma two_sessions_reach:
  "reg_reach (\<lambda>_. ''acme::ann'') sorted_list_of_set two_sessions"
  "reuse_free (\<lambda>_. ''acme::ann'') sorted_list_of_set two_sessions"
  unfolding two_sessions_def
  by (intro reach_step [OF reach_step [OF reach_new step_insert] step_insert] free_insert free_new;
      simp add: try_insert_eq SessionRegistry_new_def not_two_le_one)+

section \<open>Properties\<close>

text \<open>
  C8: The derived tables of the registry agree with the session table.  After any sequence of inserts
  (accepted or refused, keys in use included), removals and evictions, of fewer than \<open>2 ^ 64 - 1\<close> inserts and
  with each key under the user that owns it, the session count of a user is the number of its sessions
  and its connections are exactly those of its sessions.  If moreover no key was inserted while it was
  in use, the lock-free counter of a tenant is the number of the tenant's sessions.
\<close>

theorem registry_consistent:
  assumes "reg_reach own it r" and "iter_ok it"
  shows "count_user_sessions r u = card {s. get_session r s \<noteq> None \<and> own s = u}
    \<and> set (get_user_sessions it r u) = {c. \<exists>s. own s = u \<and> get_session r s = Some c}
    \<and> len_sessions r = card {s. get_session r s \<noteq> None}
    \<and> (reuse_free own it r \<longrightarrow> count_tenant_sessions r t = of_nat (card (tenant_sessions r t)))"
proof -
  note inv = reg_reach_inv [OF assms]
  have "user_sessions own r u = {s. get_session r s \<noteq> None \<and> own s = u}"
    by (auto simp: user_sessions_def get_session_def)
  moreover have "dom (sr_sessions r) = {s. get_session r s \<noteq> None}"
    by (auto simp: get_session_def)
  moreover have "count_tenant_sessions r t = of_nat (card (tenant_sessions r t))" if "reuse_free own it r"
    using reuse_free_inv [OF that assms(2)] by (simp add: counts_exact_def)
  ultimately show ?thesis
    using count_user_sessions_eq [OF inv] get_user_sessions_set [OF inv assms(2)]
    by (simp add: len_sessions_def)
qed

theorem registry_consistent_witness:
  "reg_reach (\<lambda>_. ''acme::ann'') sorted_list_of_set two_sessions \<and> reuse_free (\<lambda>_. ''acme::ann'') sorted_list_of_set two_sessions
   \<and> count_user_sessions two_sessions ''acme::ann'' = 2
   \<and> set (get_user_sessions sorted_list_of_set two_sessions ''acme::ann'') = {\<lparr>conn_tx = 7\<rparr>, \<lparr>conn_tx = 8\<rparr>}
   \<and> count_tenant_sessions two_sessions ''acme'' = 2"
proof -
  note c = registry_consistent [OF two_sessions_reach(1) iter_ok_sorted, of "''acme::ann''" "''acme''"]
  from c two_sessions_reach two_sessions_tenant two_sessions_conns show ?thesis by (simp add: card_insert_if)
qed

text \<open>
  C9: The tenant cap is exact while no session id is reused: in a registry reached without inserting a key
  in use, whose tenant has fewer than \<open>2 ^ 64\<close> sessions, inserting a session under a new key and a cap
  succeeds iff the cap is 0 (unlimited) or the tenant has fewer sessions than the cap.  On success exactly
  this session is added to the session table, with its connection and tenant, and to the index of its user,
  only the counter of its tenant goes up, by one, and the cap is respected afterwards; on failure
  the error is \<open>RESOURCE_EXHAUSTED\<close> and no session, index entry or counter value changes.
\<close>

theorem try_insert_cap:
  assumes "reuse_free own it r" and "iter_ok it" and "own s = u" and "sr_sessions r s = None"
    and "card (tenant_sessions r t) < 2 ^ 64"
    and "try_insert t u s c m r = (res, r')"
  shows "(res = Inr () \<longleftrightarrow> m = 0 \<or> card (tenant_sessions r t) < unat m)
    \<and> (res = Inr () \<longrightarrow>
         (\<exists>n. sr_sessions r' = (sr_sessions r)(s \<mapsto> \<lparr>se_conn = c, se_created_seq = n, se_tenant_id = t\<rparr>))
         \<and> (\<forall>u'. dm_get (sr_user_index r') u' =
              (if u' = u then insert s (dm_get (sr_user_index r) u) else dm_get (sr_user_index r) u'))
         \<and> (\<forall>t'. count_tenant_sessions r' t' = count_tenant_sessions r t' + (if t' = t then 1 else 0))
         \<and> (m \<noteq> 0 \<longrightarrow> card (tenant_sessions r' t) \<le> unat m))
    \<and> (\<forall>e. res = Inl e \<longrightarrow> client_code e = CC_ResourceExhausted
         \<and> sr_sessions r' = sr_sessions r \<and> sr_user_index r' = sr_user_index r
         \<and> (\<forall>t'. count_tenant_sessions r' t' = count_tenant_sessions r t'))"
proof -
  have inv: "reg_inv own r" "counts_exact r" using reuse_free_inv [OF assms(1,2)] by blast+
  have "unat (count_tenant_sessions r t) = card (tenant_sessions r t)"
    using inv(2) assms(5) by (simp add: unat_of_nat counts_exact_def)
  then have ok: "m > 0 \<and> count_tenant_sessions r t \<ge> m \<longleftrightarrow> m \<noteq> 0 \<and> unat m \<le> card (tenant_sessions r t)"
    by (auto simp: word_le_nat_alt word_less_nat_alt word_neq_0_unat)
  have "s \<notin> tenant_sessions r t" using assms(4) by (simp add: tenant_sessions_def)
  then have card: "card (insert s (tenant_sessions r t)) = Suc (card (tenant_sessions r t))"
    using finite_tenant_sessions [OF reg_invD(1) [OF inv(1)]] by simp
  have "tenant_sessions r' t = insert s (tenant_sessions r t)" if "res = Inr ()"
    using that assms(4,6) by (auto simp: try_insert_eq tenant_sessions_def split: if_splits)
  with card show ?thesis
    using assms(6) ok
    by (auto simp: try_insert_eq count_tenant_sessions_def dm_simps split: if_splits)
qed

theorem try_insert_cap_witness:
  "fst (try_insert ''acme'' ''acme::ann'' ''acme::ann::3'' \<lparr>conn_tx = 9\<rparr> 3 two_sessions) = Inr ()
   \<and> (\<exists>e. fst (try_insert ''acme'' ''acme::ann'' ''acme::ann::3'' \<lparr>conn_tx = 9\<rparr> 2 two_sessions) = Inl e
        \<and> client_code e = CC_ResourceExhausted)"
proof -
  note ts = two_sessions_tenant
  have pre: "sr_sessions two_sessions ''acme::ann::3'' = None" "card (tenant_sessions two_sessions ''acme'') < 2 ^ 64"
    by (simp_all add: two_sessions_table ts card_insert_if)
  note cap = try_insert_cap [OF two_sessions_reach(2) iter_ok_sorted refl pre]
  let ?i = "\<lambda>m. try_insert ''acme'' ''acme::ann'' ''acme::ann::3'' \<lparr>conn_tx = 9\<rparr> m two_sessions"
  obtain a ra where a: "?i 3 = (a, ra)" by fastforce
  obtain b rb where b: "?i 2 = (b, rb)" by fastforce
  have "fst (?i 3) = Inr ()" using cap [OF a] a by (simp add: ts card_insert_if)
  moreover have "b \<noteq> Inr ()" using cap [OF b] by (simp add: ts card_insert_if)
  then obtain e where "b = Inl e" by (cases b) auto
  then have "fst (?i 2) = Inl e \<and> client_code e = CC_ResourceExhausted" using cap [OF b] b by simp
  ultimately show ?thesis by blast
qed

text \<open>
  C18: Eviction is deterministic although the index is iterated in an unspecified order: for any two
  iteration orders it evicts the same session, the one of the user with the least creation number;
  it evicts nothing iff the user has no session; and all other sessions stay.  Reused keys are allowed.
\<close>

theorem evict_oldest_correct:
  assumes "reg_reach own it r" and "iter_ok it" and "iter_ok it'"
  shows "evict_oldest it u r = evict_oldest it' u r
    \<and> (fst (evict_oldest it u r) = None \<longleftrightarrow> user_sessions own r u = {})
    \<and> (\<forall>k c. fst (evict_oldest it u r) = Some (k, c) \<longrightarrow>
         own k = u \<and> get_session r k = Some c
         \<and> (\<forall>s e e'. own s = u \<longrightarrow> sr_sessions r k = Some e \<longrightarrow> sr_sessions r s = Some e' \<longrightarrow>
              se_created_seq e \<le> se_created_seq e')
         \<and> sr_sessions (snd (evict_oldest it u r)) = (sr_sessions r)(k := None))"
proof (cases "user_sessions own r u = {}")
  case True
  then show ?thesis using evict_oldest_none [OF reg_reach_inv [OF assms(1,2)]] by simp
next
  case False
  note inv = reg_reach_inv [OF assms(1,2)]
  obtain k e where k: "k \<in> user_sessions own r u" "sr_sessions r k = Some e"
    "\<And>x e'. x \<in> user_sessions own r u \<Longrightarrow> sr_sessions r x = Some e' \<Longrightarrow> se_created_seq e \<le> se_created_seq e'"
    using oldest_exists [OF inv False] by blast
  have ev: "evict_oldest j u r = (Some (k, se_conn e), snd (remove_session u k r))" if "iter_ok j" for j
    by (rule evict_oldest_eq [OF inv that k(1,2)]) (rule k(3))
  have "se_created_seq e \<le> se_created_seq e'" if "own s = u" "sr_sessions r s = Some e'" for s e'
    using k(3) [of s e'] that by (auto simp: user_sessions_def)
  with k(1,2) False show ?thesis
    unfolding ev [OF assms(2)] ev [OF assms(3)]
    by (auto simp: remove_session_eq user_sessions_def get_session_def)
qed

theorem evict_oldest_correct_witness:
  "fst (evict_oldest sorted_list_of_set ''acme::ann'' two_sessions) = Some (''acme::ann::1'', \<lparr>conn_tx = 7\<rparr>)
   \<and> fst (evict_oldest (rev \<circ> sorted_list_of_set) ''acme::ann'' two_sessions) = Some (''acme::ann::1'', \<lparr>conn_tx = 7\<rparr>)"
proof -
  have it': "iter_ok (rev \<circ> sorted_list_of_set)" by (simp add: iter_ok_def)
  note ev = evict_oldest_correct [OF two_sessions_reach(1) iter_ok_sorted it', of "''acme::ann''"]
  let ?v = "fst (evict_oldest sorted_list_of_set ''acme::ann'' two_sessions)"
  have "user_sessions (\<lambda>_. ''acme::ann'') two_sessions ''acme::ann'' \<noteq> {}"
    by (auto simp: user_sessions_def two_sessions_table)
  with ev obtain k c where v: "?v = Some (k, c)" by fastforce
  then have k: "get_session two_sessions k = Some c"
    and least: "sr_sessions two_sessions k = Some e \<Longrightarrow> sr_sessions two_sessions ''acme::ann::1'' = Some e' \<Longrightarrow>
      se_created_seq e \<le> se_created_seq e'" for e e'
    using ev by blast+
  have "k \<noteq> ''acme::ann::2''"
    using least [of "\<lparr>se_conn = \<lparr>conn_tx = 8\<rparr>, se_created_seq = 2, se_tenant_id = ''acme''\<rparr>"
        "\<lparr>se_conn = \<lparr>conn_tx = 7\<rparr>, se_created_seq = 1, se_tenant_id = ''acme''\<rparr>"]
    by (auto simp: two_sessions_table not_two_le_one)
  with k have "k = ''acme::ann::1''" "c = \<lparr>conn_tx = 7\<rparr>" by (simp_all add: two_sessions_get)
  with v ev show ?thesis by simp
qed

text \<open>
  C24: A reused session key leaks the tenant counter.  Two connections of a user that present the
  same session id insert the same key twice; when both have gone, no session is left but the tenant
  counter still stands at one, so the capacity it guards is lost for good.
\<close>

theorem duplicate_session_key_leaks_count:
  "let r1 = snd (try_insert t u s c1 0 SessionRegistry_new);
       r2 = snd (try_insert t u s c2 0 r1);
       r3 = snd (remove_session u s r2);
       r4 = snd (remove_session u s r3)
   in len_sessions r2 = 1 \<and> count_user_sessions r2 u = 1 \<and> count_tenant_sessions r2 t = 2
    \<and> get_session r3 s = None \<and> len_sessions r4 = 0 \<and> count_tenant_sessions r4 t = 1"
  by (simp add: Let_def try_insert_eq remove_session_eq SessionRegistry_new_def len_sessions_def
      count_tenant_sessions_def count_user_sessions_def dm_add_def get_session_def)

end
