(* ===== verification/Config_Schema.thy ===== *)
theory Config_Schema
  imports Ws_Error
begin

text \<open>
  The typed configuration (\<open>crates/wsprism-gateway/src/config/schema.rs\<close>) and its loader
  (\<open>config/mod.rs\<close>): the sections with their defaults, the validation of each section, and
  loading, where reading the file and parsing YAML into the typed sections are arguments.
\<close>

section \<open>Sections and defaults\<close>

record HandshakeConfig =
  hs_enabled :: bool
  hs_global_burst :: u32
  hs_global_rps :: u32
  hs_per_ip_burst :: u32
  hs_per_ip_rps :: u32
  hs_max_ip_entries :: usize

definition default_hs_global_burst :: u32 where "default_hs_global_burst = 200"
definition default_hs_global_rps :: u32 where "default_hs_global_rps = 100"
definition default_hs_ip_burst :: u32 where "default_hs_ip_burst = 50"
definition default_hs_ip_rps :: u32 where "default_hs_ip_rps = 10"
definition default_hs_max_entries :: usize where "default_hs_max_entries = 50000"

definition HandshakeConfig_default :: HandshakeConfig where
  "HandshakeConfig_default =
     \<lparr>hs_enabled = False, hs_global_burst = 200, hs_global_rps = 100,
      hs_per_ip_burst = 50, hs_per_ip_rps = 10, hs_max_ip_entries = 50000\<rparr>"

record GatewaySection =
  gw_listen :: string
  gw_ping_interval_ms :: u64
  gw_idle_timeout_ms :: u64
  gw_writer_send_timeout_ms :: u64
  gw_drain_grace_ms :: u64
  gw_handshake_limit :: HandshakeConfig

definition default_listen :: string where "default_listen = ''0.0.0.0:8080''"
definition default_ping_interval_ms :: u64 where "default_ping_interval_ms = 20000"
definition default_idle_timeout_ms :: u64 where "default_idle_timeout_ms = 60000"
definition default_writer_send_timeout_ms :: u64 where "default_writer_send_timeout_ms = 1500"
definition default_drain_grace_ms :: u64 where "default_drain_grace_ms = 2000"

definition GatewaySection_default :: GatewaySection where
  "GatewaySection_default =
     \<lparr>gw_listen = default_listen, gw_ping_interval_ms = default_ping_interval_ms,
      gw_idle_timeout_ms = default_idle_timeout_ms,
      gw_writer_send_timeout_ms = default_writer_send_timeout_ms,
      gw_drain_grace_ms = default_drain_grace_ms,
      gw_handshake_limit = HandshakeConfig_default\<rparr>"

record TenantLimits =
  tl_max_frame_bytes :: usize
  tl_max_sessions_total :: u64
  tl_max_rooms_total :: u64
  tl_max_users_per_room :: u64
  tl_max_rooms_per_user :: u64

definition default_max_frame_bytes :: usize where "default_max_frame_bytes = 4096"

definition TenantLimits_default :: TenantLimits where
  "TenantLimits_default =
     \<lparr>tl_max_frame_bytes = 4096, tl_max_sessions_total = 0, tl_max_rooms_total = 0,
      tl_max_users_per_room = 0, tl_max_rooms_per_user = 0\<rparr>"

datatype RateLimitScope = RLS_Tenant | RLS_Connection | RLS_Both
datatype HotErrorMode = HEM_SysError | HEM_Silent
datatype SessionMode = SM_Single | SM_Multi
datatype OnExceed = OE_Deny | OE_KickOldest

definition default_rate_limit_scope :: RateLimitScope where "default_rate_limit_scope = RLS_Connection"
definition default_hot_error_mode :: HotErrorMode where "default_hot_error_mode = HEM_SysError"

record SessionPolicy =
  sp_mode :: SessionMode
  sp_max_sessions_per_user :: u32
  sp_on_exceed :: OnExceed

definition default_session_mode :: SessionMode where "default_session_mode = SM_Multi"
definition default_max_sessions_per_user :: u32 where "default_max_sessions_per_user = 4"
definition default_on_exceed :: OnExceed where "default_on_exceed = OE_Deny"

definition SessionPolicy_default :: SessionPolicy where
  "SessionPolicy_default =
     \<lparr>sp_mode = default_session_mode, sp_max_sessions_per_user = default_max_sessions_per_user,
      sp_on_exceed = default_on_exceed\<rparr>"

record TenantPolicy =
  tp_rate_limit_rps :: u32
  tp_rate_limit_burst :: u32
  tp_rate_limit_scope :: RateLimitScope
  tp_ext_allowlist :: "string list"
  tp_hot_allowlist :: "string list"
  tp_sessions :: SessionPolicy
  tp_hot_error_mode :: HotErrorMode
  tp_hot_requires_active_room :: bool

definition default_rate_limit_rps :: u32 where "default_rate_limit_rps = 200"
definition default_rate_limit_burst :: u32 where "default_rate_limit_burst = 400"
definition default_ext_allowlist :: "string list" where
  "default_ext_allowlist = [''room:join'', ''room:leave'']"
definition default_hot_requires_active_room :: bool where "default_hot_requires_active_room = True"

definition TenantPolicy_default :: TenantPolicy where
  "TenantPolicy_default =
     \<lparr>tp_rate_limit_rps = default_rate_limit_rps, tp_rate_limit_burst = default_rate_limit_burst,
      tp_rate_limit_scope = default_rate_limit_scope, tp_ext_allowlist = default_ext_allowlist,
      tp_hot_allowlist = [], tp_sessions = SessionPolicy_default,
      tp_hot_error_mode = default_hot_error_mode,
      tp_hot_requires_active_room = default_hot_requires_active_room\<rparr>"

record TenantConfig =
  tc_id :: string
  tc_limits :: TenantLimits
  tc_policy :: TenantPolicy

record GatewayConfig =
  gc_version :: u32
  gc_gateway :: GatewaySection
  gc_tenants :: "TenantConfig list"

section \<open>Validation\<close>

definition GatewaySection_validate :: "GatewaySection \<Rightarrow> unit result" where
  "GatewaySection_validate g =
     (if \<not> (5000 \<le> gw_ping_interval_ms g \<and> gw_ping_interval_ms g \<le> 120000) then
        Inl (BadRequest ''gateway.ping_interval_ms must be between 5000 and 120000'')
      else if \<not> (10000 \<le> gw_idle_timeout_ms g \<and> gw_idle_timeout_ms g \<le> 600000) then
        Inl (BadRequest ''gateway.idle_timeout_ms must be between 10000 and 600000'')
      else if gw_idle_timeout_ms g \<le> gw_ping_interval_ms g then
        Inl (BadRequest ''gateway.idle_timeout_ms must be greater than ping_interval_ms'')
      else if \<not> (50 \<le> gw_writer_send_timeout_ms g \<and> gw_writer_send_timeout_ms g \<le> 60000) then
        Inl (BadRequest ''gateway.writer_send_timeout_ms must be between 50 and 60000'')
      else if gw_drain_grace_ms g > 600000 then
        Inl (BadRequest ''gateway.drain_grace_ms must be <= 600000'')
      else Inr ())"

definition TenantPolicy_validate :: "TenantPolicy \<Rightarrow> unit result" where
  "TenantPolicy_validate p =
     (if tp_rate_limit_rps p = 0 \<or> tp_rate_limit_burst p = 0 then
        Inl (BadRequest ''policy.rate_limit_rps and rate_limit_burst must be > 0'')
      else
        (case sp_mode (tp_sessions p) of
           SM_Single \<Rightarrow>
             if sp_max_sessions_per_user (tp_sessions p) \<noteq> 1 then
               Inl (BadRequest ''policy.sessions.mode=single requires max_sessions_per_user=1'')
             else Inr ()
         | SM_Multi \<Rightarrow>
             if sp_max_sessions_per_user (tp_sessions p) = 0 then
               Inl (BadRequest ''policy.sessions.max_sessions_per_user must be > 0'')
             else Inr ()))"

definition TenantConfig_validate :: "TenantConfig \<Rightarrow> unit result" where
  "TenantConfig_validate t =
     (if tl_max_frame_bytes (tc_limits t) = 0 then
        Inl (BadRequest ''limits.max_frame_bytes must be > 0'')
      else and_then (TenantPolicy_validate (tc_policy t)) (\<lambda>_. Inr ()))"

text \<open>
  \<open>s.trim().is_empty()\<close>: every character of the string is Unicode white space.  The characters
  with the \<open>White_Space\<close> property are U+0009 to U+000D, U+0020, and in UTF-8 the two-byte
  sequences of U+0085 and U+00A0 and the three-byte sequences listed in \<open>white3\<close>.
\<close>

definition white3 :: "nat \<Rightarrow> nat \<Rightarrow> nat \<Rightarrow> bool" where
  "white3 b d e \<longleftrightarrow>
     b = 0xE1 \<and> d = 0x9A \<and> e = 0x80
   \<or> b = 0xE2 \<and> d = 0x80 \<and> (0x80 \<le> e \<and> e \<le> 0x8A \<or> e = 0xA8 \<or> e = 0xA9 \<or> e = 0xAF)
   \<or> b = 0xE2 \<and> d = 0x81 \<and> e = 0x9F
   \<or> b = 0xE3 \<and> d = 0x80 \<and> e = 0x80"

fun trim_is_empty :: "string \<Rightarrow> bool" where
  "trim_is_empty [] = True"
| "trim_is_empty (c # cs) =
     (let b = of_char c :: nat in
      if 9 \<le> b \<and> b \<le> 13 \<or> b = 32 then trim_is_empty cs
      else if b = 0xC2 then
        (case cs of
           [] \<Rightarrow> False
         | d # ds \<Rightarrow> (of_char d = (0x85 :: nat) \<or> of_char d = (0xA0 :: nat)) \<and> trim_is_empty ds)
      else
        (case cs of
           d # e # es \<Rightarrow> white3 b (of_char d) (of_char e) \<and> trim_is_empty es
         | _ \<Rightarrow> False))"

fun validate_tenants :: "string set \<Rightarrow> TenantConfig list \<Rightarrow> unit result" where
  "validate_tenants seen [] = Inr ()"
| "validate_tenants seen (t # ts) =
     (if trim_is_empty (tc_id t) then Inl (BadRequest ''tenant.id must not be empty'')
      else if tc_id t \<in> seen then Inl (BadRequest (''duplicate tenant id: '' @ tc_id t))
      else and_then (TenantConfig_validate t) (\<lambda>_. validate_tenants (insert (tc_id t) seen) ts))"

definition GatewayConfig_validate :: "GatewayConfig \<Rightarrow> unit result" where
  "GatewayConfig_validate cfg =
     (if gc_version cfg \<noteq> 1 then Inl UnsupportedVersion
      else if gc_tenants cfg = [] then Inl (BadRequest ''tenants must not be empty'')
      else and_then (validate_tenants {} (gc_tenants cfg)) (\<lambda>_.
             and_then (GatewaySection_validate (gc_gateway cfg)) (\<lambda>_. Inr ())))"

section \<open>Loading\<close>

type_synonym yaml_parser = "string \<Rightarrow> string + GatewayConfig"
type_synonym file_reader = "string \<Rightarrow> string + string"

definition load_from_str :: "yaml_parser \<Rightarrow> string \<Rightarrow> GatewayConfig result" where
  "load_from_str yaml s =
     (case yaml s of
        Inl e \<Rightarrow> Inl (BadRequest (''invalid yaml: '' @ e))
      | Inr cfg \<Rightarrow> and_then (GatewayConfig_validate cfg) (\<lambda>_. Inr cfg))"

definition load_from_file :: "file_reader \<Rightarrow> yaml_parser \<Rightarrow> string \<Rightarrow> GatewayConfig result" where
  "load_from_file rd yaml path =
     (case rd path of
        Inl e \<Rightarrow> Inl (Internal (''read config failed: '' @ e))
      | Inr s \<Rightarrow> load_from_str yaml s)"

section \<open>What a valid configuration is\<close>

definition gateway_valid :: "GatewaySection \<Rightarrow> bool" where
  "gateway_valid g \<longleftrightarrow>
     unat (gw_ping_interval_ms g) \<in> {5000..120000} \<and> unat (gw_idle_timeout_ms g) \<in> {10000..600000}
   \<and> unat (gw_ping_interval_ms g) < unat (gw_idle_timeout_ms g)
   \<and> unat (gw_writer_send_timeout_ms g) \<in> {50..60000} \<and> unat (gw_drain_grace_ms g) \<le> 600000"

definition tenant_valid :: "TenantConfig \<Rightarrow> bool" where
  "tenant_valid t \<longleftrightarrow>
     \<not> trim_is_empty (tc_id t) \<and> 0 < tl_max_frame_bytes (tc_limits t)
   \<and> tp_rate_limit_rps (tc_policy t) \<noteq> 0 \<and> tp_rate_limit_burst (tc_policy t) \<noteq> 0
   \<and> sp_max_sessions_per_user (tp_sessions (tc_policy t)) \<noteq> 0
   \<and> (sp_mode (tp_sessions (tc_policy t)) = SM_Single \<longrightarrow>
        sp_max_sessions_per_user (tp_sessions (tc_policy t)) = 1)"

definition config_valid :: "GatewayConfig \<Rightarrow> bool" where
  "config_valid cfg \<longleftrightarrow>
     gc_version cfg = 1 \<and> gc_tenants cfg \<noteq> [] \<and> distinct (map tc_id (gc_tenants cfg))
   \<and> list_all tenant_valid (gc_tenants cfg) \<and> gateway_valid (gc_gateway cfg)"

lemma GatewaySection_validate_iff: "GatewaySection_validate g = Inr () \<longleftrightarrow> gateway_valid g"
  by (simp add: GatewaySection_validate_def gateway_valid_def word_le_nat_alt word_less_nat_alt
      not_le not_less)

lemma TenantConfig_validate_iff:
  "TenantConfig_validate t = Inr () \<and> \<not> trim_is_empty (tc_id t) \<longleftrightarrow> tenant_valid t"
  by (cases "sp_mode (tp_sessions (tc_policy t))")
    (auto simp: TenantConfig_validate_def TenantPolicy_validate_def tenant_valid_def)

lemma validate_tenants_iff:
  "validate_tenants seen ts = Inr () \<longleftrightarrow>
     list_all tenant_valid ts \<and> distinct (map tc_id ts) \<and> seen \<inter> tc_id ` set ts = {}"
proof (induction ts arbitrary: seen)
  case (Cons t ts)
  show ?case
    using TenantConfig_validate_iff [of t] by (auto simp: and_then_eq_Inr Cons.IH)
qed simp

lemma GatewayConfig_validate_iff: "GatewayConfig_validate cfg = Inr () \<longleftrightarrow> config_valid cfg"
  by (auto simp: GatewayConfig_validate_def config_valid_def and_then_eq_Inr
      validate_tenants_iff GatewaySection_validate_iff)

lemma section_validate_code:
  "TenantConfig_validate t = Inl e \<Longrightarrow> client_code e = CC_BadRequest"
  "GatewaySection_validate g = Inl e \<Longrightarrow> client_code e = CC_BadRequest"
  by (auto simp: TenantConfig_validate_def TenantPolicy_validate_def GatewaySection_validate_def
      and_then_eq_Inl split: if_splits SessionMode.splits)

lemma validate_tenants_code:
  "validate_tenants seen ts = Inl e \<Longrightarrow> client_code e = CC_BadRequest"
  by (induction ts arbitrary: seen)
    (auto simp: and_then_eq_Inl split: if_splits dest: section_validate_code)

lemma default_tenants_valid:
  assumes "ids \<noteq> []" and "distinct ids" and "list_all (\<lambda>i. \<not> trim_is_empty i) ids"
  shows "config_valid
     \<lparr>gc_version = 1, gc_gateway = GatewaySection_default,
      gc_tenants = map (\<lambda>i. \<lparr>tc_id = i, tc_limits = TenantLimits_default,
                             tc_policy = TenantPolicy_default\<rparr>) ids\<rparr>"
proof -
  have "gateway_valid GatewaySection_default"
    by (simp add: gateway_valid_def GatewaySection_default_def default_ping_interval_ms_def
        default_idle_timeout_ms_def default_writer_send_timeout_ms_def default_drain_grace_ms_def)
  moreover have "tenant_valid \<lparr>tc_id = i, tc_limits = TenantLimits_default, tc_policy = TenantPolicy_default\<rparr>"
    if "\<not> trim_is_empty i" for i
    using that
    by (simp add: tenant_valid_def TenantLimits_default_def TenantPolicy_default_def
        SessionPolicy_default_def default_rate_limit_rps_def default_rate_limit_burst_def
        default_max_sessions_per_user_def default_session_mode_def)
  ultimately show ?thesis
    using assms by (simp add: config_valid_def list_all_iff comp_def)
qed

section \<open>Properties\<close>

text \<open>
  C20: Loading is exactly reading, parsing and the declarative validity of the result: a
  configuration is returned iff the file was read, the text parsed to it and it has version 1, at
  least one tenant, pairwise distinct non-blank tenant ids, valid tenant sections (positive frame
  size, rate and burst; exactly one session in single mode, at least one in multi mode) and gateway
  timings within their bounds with the idle timeout above the ping interval.
\<close>

theorem load_from_file_iff_valid:
  "load_from_file rd yaml path = Inr cfg \<longleftrightarrow>
     (\<exists>s. rd path = Inr s \<and> yaml s = Inr cfg \<and> config_valid cfg)"
  by (auto simp: load_from_file_def load_from_str_def and_then_eq_Inr GatewayConfig_validate_iff
      split: sum.splits)

text \<open>
  The error class of a failed load: an unreadable file is \<open>INTERNAL\<close>, a wrong schema version is
  \<open>UNSUPPORTED_VERSION\<close>, everything else (bad YAML, any other invalid field) is \<open>BAD_REQUEST\<close>.
\<close>

theorem load_from_file_error_code:
  assumes "load_from_file rd yaml path = Inl e"
  shows "client_code e =
     (case rd path of
        Inl _ \<Rightarrow> CC_Internal
      | Inr s \<Rightarrow> (case yaml s of
          Inl _ \<Rightarrow> CC_BadRequest
        | Inr cfg \<Rightarrow> if gc_version cfg = 1 then CC_BadRequest else CC_UnsupportedVersion))"
  using assms
  by (auto simp: load_from_file_def load_from_str_def GatewayConfig_validate_def and_then_eq_Inl
      split: sum.splits if_splits dest: section_validate_code validate_tenants_code)

theorem load_from_file_error_code_witness:
  "load_from_file (\<lambda>_. Inr ''version: 2'')
      (\<lambda>_. Inr \<lparr>gc_version = 2, gc_gateway = GatewaySection_default, gc_tenants = []\<rparr>) ''wsprism.yaml''
     = Inl UnsupportedVersion
   \<and> client_code UnsupportedVersion = CC_UnsupportedVersion"
proof -
  let ?rd = "\<lambda>_ :: string. Inr ''version: 2'' :: string + string"
  let ?yaml = "\<lambda>_ :: string.
    Inr \<lparr>gc_version = 2, gc_gateway = GatewaySection_default, gc_tenants = []\<rparr> :: string + GatewayConfig"
  have h: "load_from_file ?rd ?yaml ''wsprism.yaml'' = Inl UnsupportedVersion"
    by (simp add: load_from_file_def load_from_str_def GatewayConfig_validate_def)
  show ?thesis using load_from_file_error_code [OF h] h by simp
qed

text \<open>
  The defaults are a valid configuration: a version-1 file whose tenants have non-blank,
  pairwise distinct ids and leave every other field to its default always passes validation.
\<close>

theorem default_config_valid:
  assumes "ids \<noteq> []" and "distinct ids" and "list_all (\<lambda>i. \<not> trim_is_empty i) ids"
  shows "GatewayConfig_validate
     \<lparr>gc_version = 1, gc_gateway = GatewaySection_default,
      gc_tenants = map (\<lambda>i. \<lparr>tc_id = i, tc_limits = TenantLimits_default,
                             tc_policy = TenantPolicy_default\<rparr>) ids\<rparr> = Inr ()"
  using default_tenants_valid [OF assms] by (simp add: GatewayConfig_validate_iff)

theorem default_config_valid_witness:
  "GatewayConfig_validate
     \<lparr>gc_version = 1, gc_gateway = GatewaySection_default,
      gc_tenants = map (\<lambda>i. \<lparr>tc_id = i, tc_limits = TenantLimits_default,
                             tc_policy = TenantPolicy_default\<rparr>) [''acme'']\<rparr> = Inr ()"
  by (rule default_config_valid) (simp_all add: white3_def)

end
