(* ===== verification/Presence.thy ===== *)
theory Presence
  imports Config_Schema
begin

text \<open>
  Room presence (\<open>crates/wsprism-gateway/src/realtime/core/presence.rs\<close>): which sessions and users
  are in which rooms, the reference counts of users per room, and the room counter of each tenant.
  Each operation is one atomic step.  In orderly histories the whole state is shown to represent one abstract
  relation, the sessions of each room, and the operations to be its insertion and removal.
\<close>

record Presence =
  ps_room_to_sessions :: "string \<rightharpoonup> string set"
  ps_session_to_rooms :: "string \<rightharpoonup> string set"
  ps_room_to_users :: "string \<rightharpoonup> string set"
  ps_user_to_rooms :: "string \<rightharpoonup> string set"
  ps_user_room_refs :: "string \<rightharpoonup> usize"
  ps_tenant_room_counts :: "string \<rightharpoonup> u64"

definition Presence_new :: Presence where
  "Presence_new =
     \<lparr>ps_room_to_sessions = Map.empty, ps_session_to_rooms = Map.empty,
      ps_room_to_users = Map.empty, ps_user_to_rooms = Map.empty,
      ps_user_room_refs = Map.empty, ps_tenant_room_counts = Map.empty\<rparr>"

definition room_count :: "Presence \<Rightarrow> string \<Rightarrow> u64" where
  "room_count p tenant_id =
     (case ps_tenant_room_counts p tenant_id of None \<Rightarrow> 0 | Some c \<Rightarrow> c)"

text \<open>Part 4 of \<open>try_join\<close>: routing tables, then the reference count and the user tables.\<close>

definition perform_join :: "string \<Rightarrow> string \<Rightarrow> string \<Rightarrow> Presence \<Rightarrow> Presence" where
  "perform_join room_key user_key session_key p =
     (let p = p\<lparr>ps_room_to_sessions := dm_add (ps_room_to_sessions p) room_key session_key\<rparr>;
          p = p\<lparr>ps_session_to_rooms := dm_add (ps_session_to_rooms p) session_key room_key\<rparr>;
          ref_key = key_join user_key room_key;
          refs = (case ps_user_room_refs p ref_key of None \<Rightarrow> 0 | Some n \<Rightarrow> n) + 1;
          p = p\<lparr>ps_user_room_refs := (ps_user_room_refs p)(ref_key \<mapsto> refs)\<rparr>
      in
        if refs = 1 then
          p\<lparr>ps_room_to_users := dm_add (ps_room_to_users p) room_key user_key,
            ps_user_to_rooms := dm_add (ps_user_to_rooms p) user_key room_key\<rparr>
        else p)"

definition try_join ::
  "string \<Rightarrow> string \<Rightarrow> string \<Rightarrow> string \<Rightarrow> TenantLimits \<Rightarrow> Presence \<Rightarrow> unit result \<times> Presence" where
  "try_join tenant_id room_key user_key session_key limits p =
     (if tl_max_users_per_room limits > 0
         \<and> (case ps_room_to_users p room_key of
              None \<Rightarrow> False
            | Some users \<Rightarrow>
                of_nat (card users) \<ge> tl_max_users_per_room limits \<and> user_key \<notin> users)
      then (Inl (ResourceExhausted ''room user limit reached''), p)
      else if tl_max_rooms_per_user limits > 0
         \<and> (case ps_user_to_rooms p user_key of
              None \<Rightarrow> False
            | Some rooms \<Rightarrow>
                of_nat (card rooms) \<ge> tl_max_rooms_per_user limits \<and> room_key \<notin> rooms)
      then (Inl (ResourceExhausted ''user room limit reached''), p)
      else
        (let is_new_room = (ps_room_to_sessions p room_key = None);
             counter = room_count p tenant_id
         in
           if is_new_room \<and> tl_max_rooms_total limits > 0 then
             (let p = p\<lparr>ps_tenant_room_counts := (ps_tenant_room_counts p)(tenant_id \<mapsto> counter)\<rparr>
              in
                if counter \<ge> tl_max_rooms_total limits then
                  (Inl (ResourceExhausted ''tenant room limit reached''), p)
                else
                  (Inr (), perform_join room_key user_key session_key
                     (p\<lparr>ps_tenant_room_counts := (ps_tenant_room_counts p)(tenant_id \<mapsto> counter + 1)\<rparr>)))
           else if is_new_room then
             (Inr (), perform_join room_key user_key session_key
                (p\<lparr>ps_tenant_room_counts := (ps_tenant_room_counts p)(tenant_id \<mapsto> counter + 1)\<rparr>))
           else (Inr (), perform_join room_key user_key session_key p)))"

definition leave :: "string \<Rightarrow> string \<Rightarrow> string \<Rightarrow> string \<Rightarrow> Presence \<Rightarrow> Presence" where
  "leave tenant_id room_key user_key session_key p =
     (let room_empty = (case ps_room_to_sessions p room_key of
                          None \<Rightarrow> False | Some S \<Rightarrow> S - {session_key} = {});
          p = p\<lparr>ps_room_to_sessions := dm_del (ps_room_to_sessions p) room_key session_key\<rparr>;
          p = p\<lparr>ps_session_to_rooms := dm_del (ps_session_to_rooms p) session_key room_key\<rparr>;
          ref_key = key_join user_key room_key;
          (remove_user_mapping, p) =
            (case ps_user_room_refs p ref_key of
               None \<Rightarrow> (False, p)
             | Some refs \<Rightarrow>
                 (refs - 1 = 0,
                  p\<lparr>ps_user_room_refs := (ps_user_room_refs p)(ref_key \<mapsto> refs - 1)\<rparr>));
          p = (if remove_user_mapping then
                 p\<lparr>ps_user_room_refs := (ps_user_room_refs p)(ref_key := None),
                   ps_user_to_rooms := dm_del (ps_user_to_rooms p) user_key room_key,
                   ps_room_to_users := dm_del (ps_room_to_users p) room_key user_key\<rparr>
               else p)
      in
        if room_empty then
          (case ps_tenant_room_counts p tenant_id of
             None \<Rightarrow> p
           | Some counter \<Rightarrow>
               p\<lparr>ps_tenant_room_counts := (ps_tenant_room_counts p)(tenant_id \<mapsto> counter - 1)\<rparr>)
        else p)"

definition sessions_in :: "iter_order \<Rightarrow> Presence \<Rightarrow> string \<Rightarrow> string list" where
  "sessions_in it p room_key =
     (case ps_room_to_sessions p room_key of None \<Rightarrow> [] | Some S \<Rightarrow> it S)"

definition cleanup_session :: "iter_order \<Rightarrow> string \<Rightarrow> string \<Rightarrow> string \<Rightarrow> Presence \<Rightarrow> Presence" where
  "cleanup_session it tenant_id user_key session_key p =
     (case ps_session_to_rooms p session_key of
        None \<Rightarrow> p
      | Some rooms \<Rightarrow>
          fold (\<lambda>room_key. leave tenant_id room_key user_key session_key) (it rooms)
            (p\<lparr>ps_session_to_rooms := (ps_session_to_rooms p)(session_key := None)\<rparr>))"

section \<open>Abstraction\<close>

text \<open>
  \<open>M r\<close> is the set of sessions in room \<open>r\<close>.  \<open>own\<close> maps a session key to its user key, \<open>ten\<close> a room
  key to its tenant, and \<open>pok u r\<close> says that the keys \<open>u\<close> and \<open>r\<close> belong together (a user of the
  room's tenant).  All six tables are determined by \<open>M\<close>.
\<close>

definition user_refs :: "(string \<Rightarrow> string) \<Rightarrow> (string \<Rightarrow> string set) \<Rightarrow> string \<Rightarrow> string \<Rightarrow> string set" where
  "user_refs own M u r = {s \<in> M r. own s = u}"

definition pres_rep ::
  "(string \<Rightarrow> string) \<Rightarrow> (string \<Rightarrow> string) \<Rightarrow> (string \<Rightarrow> string \<Rightarrow> bool) \<Rightarrow>
   (string \<Rightarrow> string set) \<Rightarrow> Presence \<Rightarrow> bool" where
  "pres_rep own ten pok M p \<longleftrightarrow>
     dm_ok (ps_room_to_sessions p) \<and> dm_ok (ps_session_to_rooms p)
   \<and> dm_ok (ps_room_to_users p) \<and> dm_ok (ps_user_to_rooms p)
   \<and> (\<forall>r. dm_get (ps_room_to_sessions p) r = M r)
   \<and> (\<forall>s. dm_get (ps_session_to_rooms p) s = {r. s \<in> M r})
   \<and> (\<forall>r. dm_get (ps_room_to_users p) r = own ` M r)
   \<and> (\<forall>u. dm_get (ps_user_to_rooms p) u = {r. u \<in> own ` M r})
   \<and> (\<forall>r s. s \<in> M r \<longrightarrow> pok (own s) r)
   \<and> (\<forall>u r. pok u r \<longrightarrow> ps_user_room_refs p (key_join u r) =
        (if user_refs own M u r = {} then None else Some (card (user_refs own M u r))))
   \<and> (\<forall>t. room_count p t = of_nat (card {r. M r \<noteq> {} \<and> ten r = t}))
   \<and> (\<forall>r. M r \<noteq> {} \<longrightarrow> ps_tenant_room_counts p (ten r) \<noteq> None)"

text \<open>The tables after a leave and after a join, one by one.\<close>

abbreviation last_ref :: "string \<Rightarrow> string \<Rightarrow> Presence \<Rightarrow> bool" where
  "last_ref u r p \<equiv> (case ps_user_room_refs p (key_join u r) of None \<Rightarrow> False | Some n \<Rightarrow> n - 1 = 0)"

lemma leave_tables:
  "ps_room_to_sessions (leave t r u s p) = dm_del (ps_room_to_sessions p) r s"
  "ps_session_to_rooms (leave t r u s p) = dm_del (ps_session_to_rooms p) s r"
  "ps_user_room_refs (leave t r u s p) =
     (case ps_user_room_refs p (key_join u r) of
        None \<Rightarrow> ps_user_room_refs p
      | Some n \<Rightarrow> (ps_user_room_refs p)(key_join u r := (if n - 1 = 0 then None else Some (n - 1))))"
  "ps_user_to_rooms (leave t r u s p) =
     (if last_ref u r p then dm_del (ps_user_to_rooms p) u r else ps_user_to_rooms p)"
  "ps_room_to_users (leave t r u s p) =
     (if last_ref u r p then dm_del (ps_room_to_users p) r u else ps_room_to_users p)"
  "room_count (leave t r u s p) t' =
     (if t' = t \<and> ps_tenant_room_counts p t \<noteq> None
         \<and> (\<exists>S. ps_room_to_sessions p r = Some S \<and> S - {s} = {})
      then room_count p t - 1 else room_count p t')"
  "ps_tenant_room_counts (leave t r u s p) t' = None \<longleftrightarrow> ps_tenant_room_counts p t' = None"
  by (auto simp: leave_def Let_def room_count_def split: option.splits)

lemma perform_join_tables:
  "ps_room_to_sessions (perform_join r u s p) = dm_add (ps_room_to_sessions p) r s"
  "ps_session_to_rooms (perform_join r u s p) = dm_add (ps_session_to_rooms p) s r"
  "ps_user_room_refs (perform_join r u s p) =
     (ps_user_room_refs p)(key_join u r \<mapsto>
        Suc (case ps_user_room_refs p (key_join u r) of None \<Rightarrow> 0 | Some n \<Rightarrow> n))"
  "ps_user_to_rooms (perform_join r u s p) =
     (if (case ps_user_room_refs p (key_join u r) of None \<Rightarrow> True | Some n \<Rightarrow> n = 0)
      then dm_add (ps_user_to_rooms p) u r else ps_user_to_rooms p)"
  "ps_room_to_users (perform_join r u s p) =
     (if (case ps_user_room_refs p (key_join u r) of None \<Rightarrow> True | Some n \<Rightarrow> n = 0)
      then dm_add (ps_room_to_users p) r u else ps_room_to_users p)"
  "ps_tenant_room_counts (perform_join r u s p) = ps_tenant_room_counts p"
  "room_count (perform_join r u s p) = room_count p"
  by (auto simp: perform_join_def Let_def room_count_def fun_eq_iff split: option.splits)

lemma pres_repD:
  assumes "pres_rep own ten pok M p"
  shows "dm_ok (ps_room_to_sessions p)" "dm_ok (ps_session_to_rooms p)"
    "dm_ok (ps_room_to_users p)" "dm_ok (ps_user_to_rooms p)"
    "dm_get (ps_room_to_sessions p) r = M r"
    "dm_get (ps_session_to_rooms p) s = {r. s \<in> M r}"
    "dm_get (ps_room_to_users p) r = own ` M r"
    "dm_get (ps_user_to_rooms p) u = {r. u \<in> own ` M r}"
    "s \<in> M r \<Longrightarrow> pok (own s) r"
    "pok u r \<Longrightarrow> ps_user_room_refs p (key_join u r) =
        (if user_refs own M u r = {} then None else Some (card (user_refs own M u r)))"
    "room_count p t = of_nat (card {r. M r \<noteq> {} \<and> ten r = t})"
    "M r \<noteq> {} \<Longrightarrow> ps_tenant_room_counts p (ten r) \<noteq> None"
  using assms by (auto simp: pres_rep_def)

lemma pres_rep_finite:
  assumes "pres_rep own ten pok M p"
  shows "finite (M r)" and "finite {r. M r \<noteq> {}}" and "finite {r. M r \<noteq> {} \<and> ten r = t}"
proof -
  show "finite (M r)"
    using dm_ok_finite [OF pres_repD(1) [OF assms], of r] pres_repD(5) [OF assms] by simp
  have "{r. M r \<noteq> {}} = dom (ps_room_to_sessions p)"
    using dm_ok_dom_eq [OF pres_repD(1) [OF assms]] pres_repD(5) [OF assms] by simp
  then show fin: "finite {r. M r \<noteq> {}}"
    using dm_ok_finite_dom [OF pres_repD(1) [OF assms]] by simp
  show "finite {r. M r \<noteq> {} \<and> ten r = t}" by (rule finite_subset [OF _ fin]) auto
qed

lemma pres_rep_room: "pres_rep own ten pok M p \<Longrightarrow> ps_room_to_sessions p r = (if M r = {} then None else Some (M r))"
  using dm_ok_None [OF pres_repD(1), of own ten pok M p r] dm_ok_Some [OF pres_repD(1), of own ten pok M p r "M r"]
  by (simp add: pres_repD(5))

text \<open>
  The contract on keys: a user and a room that belong together determine, and are determined by,
  the key of their reference count, and have the same tenant.
\<close>

locale presence_keys =
  fixes own :: "string \<Rightarrow> string"
    and ten :: "string \<Rightarrow> string"
    and uten :: "string \<Rightarrow> string"
    and pok :: "string \<Rightarrow> string \<Rightarrow> bool"
  assumes ref_key_inj: "pok u r \<Longrightarrow> pok u' r' \<Longrightarrow> key_join u r = key_join u' r' \<Longrightarrow> u = u' \<and> r = r'"
    and pok_tenant: "pok u r \<Longrightarrow> ten r = uten u"
begin

lemma ref_key_eq: "pok u r \<Longrightarrow> pok u' r' \<Longrightarrow> key_join u' r' = key_join u r \<longleftrightarrow> u' = u \<and> r' = r"
  using ref_key_inj by blast

lemma rep_join:
  assumes rep: "pres_rep own ten pok M p"
    and u: "own s = u" and pok: "pok u r" and fresh: "s \<notin> M r"
    and counts: "\<And>t. room_count q t = room_count p t + (if M r = {} \<and> t = ten r then 1 else 0)"
    and entries: "\<And>t. ps_tenant_room_counts p t \<noteq> None \<or> t = ten r \<Longrightarrow> ps_tenant_room_counts q t \<noteq> None"
    and same: "ps_room_to_sessions q = ps_room_to_sessions p" "ps_session_to_rooms q = ps_session_to_rooms p"
      "ps_room_to_users q = ps_room_to_users p" "ps_user_to_rooms q = ps_user_to_rooms p"
      "ps_user_room_refs q = ps_user_room_refs p"
  shows "pres_rep own ten pok (M(r := insert s (M r))) (perform_join r u s q)"
proof -
  let ?M = "M(r := insert s (M r))" and ?q = "perform_join r u s q"
  note D = pres_repD [OF rep] and fin = pres_rep_finite [OF rep]
  have first: "(case ps_user_room_refs p (key_join u r) of None \<Rightarrow> True | Some n \<Rightarrow> n = 0)
      \<longleftrightarrow> u \<notin> own ` M r"
    using D(10) [OF pok] fin(1) [of r] by (auto simp: user_refs_def)
  have refs: "user_refs own ?M u' r' =
      (if u' = u \<and> r' = r then insert s (user_refs own M u r) else user_refs own M u' r')" for u' r'
    using u by (auto simp: user_refs_def)
  have "s \<notin> user_refs own M u r" "finite (user_refs own M u r)"
    using fresh fin(1) [of r] by (simp_all add: user_refs_def)
  then have cnt: "ps_user_room_refs ?q (key_join u' r') =
      (if user_refs own ?M u' r' = {} then None else Some (card (user_refs own ?M u' r')))"
    if "pok u' r'" for u' r'
    using that D(10) [OF that] D(10) [OF pok] ref_key_eq [OF pok that]
    by (auto simp: perform_join_tables same refs)
  have users: "dm_get (ps_room_to_users ?q) r' = own ` ?M r'" for r'
    using u by (auto simp: perform_join_tables same dm_simps first D(7))
  have rooms: "dm_get (ps_user_to_rooms ?q) u' = {r. u' \<in> own ` ?M r}" for u'
    using u by (auto simp: perform_join_tables same dm_simps first D(8))
  have "{x. ?M x \<noteq> {} \<and> ten x = t} = (if t = ten r then insert r {x. M x \<noteq> {} \<and> ten x = t}
      else {x. M x \<noteq> {} \<and> ten x = t})" for t
    by auto
  then have rc: "room_count ?q t = of_nat (card {x. ?M x \<noteq> {} \<and> ten x = t})" for t
    using counts [of t] D(11) [of t] fin(3) [of t]
    by (cases "M r = {}") (auto simp: perform_join_tables insert_absorb)
  show ?thesis
    unfolding pres_rep_def
    using D users rooms cnt rc pok u entries
    by (auto simp: perform_join_tables same dm_simps)
qed

lemma rep_leave:
  assumes rep: "pres_rep own ten pok M p" and s: "s \<in> M r" and u: "own s = u" and t: "ten r = t"
  shows "pres_rep own ten pok (M(r := M r - {s})) (leave t r u s p)"
proof -
  let ?M = "M(r := M r - {s})" and ?q = "leave t r u s p"
  note D = pres_repD [OF rep] and fin = pres_rep_finite [OF rep]
  have pok: "pok u r" using D(9) [OF s] u by simp
  have mem: "s \<in> user_refs own M u r" and finu: "finite (user_refs own M u r)"
    using s u fin(1) [of r] by (simp_all add: user_refs_def)
  then have pos: "0 < card (user_refs own M u r)" by (auto simp: card_gt_0_iff)
  have n: "ps_user_room_refs p (key_join u r) = Some (card (user_refs own M u r))"
    using D(10) [OF pok] mem by auto
  have refs: "user_refs own ?M u' r' =
      (if u' = u \<and> r' = r then user_refs own M u r - {s} else user_refs own M u' r')" for u' r'
    using u by (auto simp: user_refs_def)
  have last: "last_ref u r p \<longleftrightarrow> user_refs own M u r - {s} = {}"
    using card_0_eq [of "user_refs own M u r - {s}"] card_Diff_singleton [OF mem] finu
    by (simp only: n option.case) simp
  have last': "last_ref u r p \<longleftrightarrow> u \<notin> own ` (M r - {s})"
    unfolding last by (auto simp: user_refs_def)
  have cnt: "ps_user_room_refs ?q (key_join u' r') =
      (if user_refs own ?M u' r' = {} then None else Some (card (user_refs own ?M u' r')))"
    if "pok u' r'" for u' r'
    using D(10) [OF that] ref_key_eq [OF pok that] last mem finu
    by (auto simp: leave_tables n refs)
  have users: "dm_get (ps_room_to_users ?q) r' = own ` ?M r'" for r'
    using u s by (auto simp: leave_tables dm_simps last' D(7)) (metis Diff_iff image_eqI singletonD)
  have rooms: "dm_get (ps_user_to_rooms ?q) u' = {r. u' \<in> own ` ?M r}" for u'
    using u s by (auto simp: leave_tables dm_simps last' D(8))
  have ne: "M r \<noteq> {}" using s by auto
  have "{x. ?M x \<noteq> {} \<and> ten x = t'} = (if t' = t \<and> M r - {s} = {} then {x. M x \<noteq> {} \<and> ten x = t'} - {r}
      else {x. M x \<noteq> {} \<and> ten x = t'})" for t'
    using t s by auto
  moreover have "r \<in> {x. M x \<noteq> {} \<and> ten x = t}" using t ne by simp
  ultimately have rc: "room_count ?q t' = of_nat (card {x. ?M x \<noteq> {} \<and> ten x = t'})" for t'
    using D(11) D(12) [OF ne] ne t of_nat_card_remove [OF fin(3) [of t], where x = r and 'a = 64]
    by (simp add: leave_tables pres_rep_room [OF rep])
  have oks: "dm_ok (ps_room_to_sessions ?q)" "dm_ok (ps_session_to_rooms ?q)"
    "dm_ok (ps_room_to_users ?q)" "dm_ok (ps_user_to_rooms ?q)"
    using D(1-4) by (auto simp: leave_tables)
  have route: "dm_get (ps_room_to_sessions ?q) r' = ?M r'"
    "dm_get (ps_session_to_rooms ?q) s' = {r. s' \<in> ?M r}" for r' s'
    using D(5,6) by (auto simp: leave_tables dm_simps)
  have own: "pok (own s') r'" if "s' \<in> ?M r'" for s' r'
    using D(9) [of s' r'] that by (auto split: if_splits)
  have "ps_tenant_room_counts ?q (ten x) \<noteq> None" if "?M x \<noteq> {}" for x
    using D(12) [of x] D(12) [OF ne] that by (cases "x = r") (auto simp: leave_tables(7))
  then show ?thesis
    unfolding pres_rep_def using oks route own users rooms cnt rc by blast
qed

end

text \<open>When a join is accepted, over the abstract relation.\<close>

definition join_ok ::
  "(string \<Rightarrow> string) \<Rightarrow> (string \<Rightarrow> string) \<Rightarrow> (string \<Rightarrow> string set) \<Rightarrow> TenantLimits \<Rightarrow> string \<Rightarrow> string \<Rightarrow> bool" where
  "join_ok own ten M L r u \<longleftrightarrow>
     (tl_max_users_per_room L = 0 \<or> u \<in> own ` M r \<or> card (own ` M r) < unat (tl_max_users_per_room L))
   \<and> (tl_max_rooms_per_user L = 0 \<or> u \<in> own ` M r
        \<or> card {x. u \<in> own ` M x} < unat (tl_max_rooms_per_user L))
   \<and> (M r \<noteq> {} \<or> tl_max_rooms_total L = 0
        \<or> card {x. M x \<noteq> {} \<and> ten x = ten r} < unat (tl_max_rooms_total L))"

text \<open>The tables hold fewer entries than a 64-bit length can count.\<close>

definition pres_small :: "(string \<Rightarrow> string set) \<Rightarrow> bool" where
  "pres_small M \<longleftrightarrow> card {r. M r \<noteq> {}} < 2 ^ 64 \<and> (\<forall>r. card (M r) < 2 ^ 64)"

lemma of_nat_ge_unat:
  "n < 2 ^ 64 \<Longrightarrow> (of_nat n :: u64) \<ge> m \<longleftrightarrow> unat m \<le> n"
  by (simp add: word_le_nat_alt unat_of_nat)

lemma pres_small_cards:
  assumes "pres_small M" and "\<And>r. finite (M r)" and "finite {r. M r \<noteq> {}}"
  shows "card (own ` M r) < 2 ^ 64" and "card {x. u \<in> own ` M x} < 2 ^ 64"
    and "card {x. M x \<noteq> {} \<and> ten x = t} < 2 ^ 64"
proof -
  show "card (own ` M r) < 2 ^ 64"
    using card_image_le [OF assms(2) [of r], of own] assms(1) unfolding pres_small_def
    by (meson le_less_trans)
  have "card {x. u \<in> own ` M x} \<le> card {r. M r \<noteq> {}}"
    "card {x. M x \<noteq> {} \<and> ten x = t} \<le> card {r. M r \<noteq> {}}"
    by (rule card_mono [OF assms(3)]; auto)+
  then show "card {x. u \<in> own ` M x} < 2 ^ 64" "card {x. M x \<noteq> {} \<and> ten x = t} < 2 ^ 64"
    using assms(1) unfolding pres_small_def by (meson le_less_trans)+
qed

lemma pres_rep_users: "pres_rep own ten pok M p \<Longrightarrow> ps_room_to_users p r = (if M r = {} then None else Some (own ` M r))"
  using dm_ok_None [OF pres_repD(3), of own ten pok M p r]
    dm_ok_Some [OF pres_repD(3), of own ten pok M p r "own ` M r"]
  by (simp add: pres_repD(7))

lemma pres_rep_rooms:
  "pres_rep own ten pok M p \<Longrightarrow>
     ps_user_to_rooms p u = (if {r. u \<in> own ` M r} = {} then None else Some {r. u \<in> own ` M r})"
  using dm_ok_None [OF pres_repD(4), of own ten pok M p u]
    dm_ok_Some [OF pres_repD(4), of own ten pok M p u "{r. u \<in> own ` M r}"]
  by (simp only: pres_repD(8) if_True if_False split: if_splits) auto

lemma try_join_accepts:
  assumes rep: "pres_rep own ten pok M p" and small: "pres_small M"
  shows "fst (try_join (ten r) r u s L p) = Inr () \<longleftrightarrow> join_ok own ten M L r u"
proof -
  note small = pres_small_cards [OF small pres_rep_finite(1,2) [OF rep]]
  have new: "ps_room_to_sessions p r = None \<longleftrightarrow> M r = {}" by (simp add: pres_rep_room [OF rep])
  have users: "(tl_max_users_per_room L > 0
         \<and> (case ps_room_to_users p r of None \<Rightarrow> False
            | Some users \<Rightarrow> of_nat (card users) \<ge> tl_max_users_per_room L \<and> u \<notin> users))
      \<longleftrightarrow> \<not> (tl_max_users_per_room L = 0 \<or> u \<in> own ` M r \<or> card (own ` M r) < unat (tl_max_users_per_room L))"
    using of_nat_ge_unat [OF small(1) [of own r]]
    by (cases "M r = {}") (simp_all add: pres_rep_users [OF rep] word_gt_0 word_neq_0_unat not_le not_less, auto)
  have rooms: "(tl_max_rooms_per_user L > 0
         \<and> (case ps_user_to_rooms p u of None \<Rightarrow> False
            | Some rooms \<Rightarrow> of_nat (card rooms) \<ge> tl_max_rooms_per_user L \<and> r \<notin> rooms))
      \<longleftrightarrow> \<not> (tl_max_rooms_per_user L = 0 \<or> u \<in> own ` M r
            \<or> card {x. u \<in> own ` M x} < unat (tl_max_rooms_per_user L))"
    using of_nat_ge_unat [OF small(2) [of u own]]
    by (cases "{x. u \<in> own ` M x} = {}")
      (simp_all only: pres_rep_rooms [OF rep] if_True if_False option.case word_gt_0, auto simp: word_neq_0_unat not_less)
  have total: "room_count p (ten r) \<ge> tl_max_rooms_total L \<longleftrightarrow>
      unat (tl_max_rooms_total L) \<le> card {x. M x \<noteq> {} \<and> ten x = ten r}"
    using of_nat_ge_unat [OF small(3)] by (simp add: pres_repD(11) [OF rep])
  show ?thesis
    unfolding try_join_def users rooms join_ok_def Let_def new
    using total by (auto simp: word_gt_0 split: if_splits)
qed

lemma try_join_Inr:
  "fst (try_join t r u s L p) = Inr () \<Longrightarrow>
     snd (try_join t r u s L p) = perform_join r u s
       (if ps_room_to_sessions p r = None
        then p\<lparr>ps_tenant_room_counts := (ps_tenant_room_counts p)(t \<mapsto> room_count p t + 1)\<rparr> else p)"
  by (auto simp: try_join_def Let_def split: if_splits)

lemma try_join_Inl:
  "fst (try_join t r u s L p) = Inl e \<Longrightarrow>
     client_code e = CC_ResourceExhausted
     \<and> (snd (try_join t r u s L p) = p \<or> snd (try_join t r u s L p) =
          p\<lparr>ps_tenant_room_counts := (ps_tenant_room_counts p)(t \<mapsto> room_count p t)\<rparr>)"
  by (auto simp: try_join_def Let_def split: if_splits)

lemma room_count_upd:
  "room_count (p\<lparr>ps_tenant_room_counts := (ps_tenant_room_counts p)(t \<mapsto> c)\<rparr>) t' =
     (if t' = t then c else room_count p t')"
  by (simp add: room_count_def)

lemma pres_rep_touch:
  "pres_rep own ten pok M p \<Longrightarrow>
     pres_rep own ten pok M (p\<lparr>ps_tenant_room_counts := (ps_tenant_room_counts p)(t \<mapsto> room_count p t)\<rparr>)"
  by (simp add: pres_rep_def room_count_upd)

text \<open>
  \<open>cleanup_session\<close> takes the session's room set out of its table first; the leaves that follow
  find nothing there.  The result is that of leaving the rooms one after the other.
\<close>

lemma leave_other_s2r:
  "leave t r u s (p\<lparr>ps_session_to_rooms := X\<rparr>) = (leave t r u s p)\<lparr>ps_session_to_rooms := dm_del X s r\<rparr>"
  by (simp add: leave_def Let_def split: option.splits)

lemma dm_del_absent: "m k = None \<Longrightarrow> dm_del m k v = m"
  by (simp add: dm_del_def)

lemma fold_leave_s2r:
  "X s = None \<Longrightarrow> fold (\<lambda>r. leave t r u s) rs (p\<lparr>ps_session_to_rooms := X\<rparr>) =
     (fold (\<lambda>r. leave t r u s) rs p)\<lparr>ps_session_to_rooms := X\<rparr>"
  by (induction rs arbitrary: p) (simp_all add: leave_other_s2r dm_del_absent)

lemma fold_leave_get:
  "dm_get (ps_session_to_rooms (fold (\<lambda>r. leave t r u s) rs p)) s' =
     (if s' = s then dm_get (ps_session_to_rooms p) s - set rs else dm_get (ps_session_to_rooms p) s')"
  by (induction rs arbitrary: p) (auto simp: leave_tables dm_simps)

lemma fold_leave_ok: "dm_ok (ps_session_to_rooms p) \<Longrightarrow> dm_ok (ps_session_to_rooms (fold (\<lambda>r. leave t r u s) rs p))"
proof (induction rs arbitrary: p)
  case (Cons r rs)
  then have "dm_ok (ps_session_to_rooms (leave t r u s p))" by (auto simp: leave_tables)
  with Cons.IH show ?case by simp
qed simp

lemma cleanup_session_eq:
  assumes "dm_ok (ps_session_to_rooms p)" and "iter_ok it"
  shows "cleanup_session it t u s p =
    (if ps_session_to_rooms p s = None then p
     else fold (\<lambda>r. leave t r u s) (it (dm_get (ps_session_to_rooms p) s)) p)"
proof (cases "ps_session_to_rooms p s")
  case (Some rooms)
  let ?X = "(ps_session_to_rooms p)(s := None)" and ?rs = "it rooms"
  let ?q = "fold (\<lambda>r. leave t r u s) ?rs p"
  have get: "dm_get (ps_session_to_rooms p) s = rooms" and "finite rooms"
    using Some assms(1) by (auto simp: dm_get_def dm_ok_def)
  then have rs: "set ?rs = rooms" using iter_ok_set [OF assms(2)] by simp
  have "ps_session_to_rooms ?q = ?X"
    by (rule dm_ext)
      (use assms(1) in \<open>auto simp: fold_leave_ok fold_leave_get dm_simps get rs\<close>)
  then have "?q\<lparr>ps_session_to_rooms := ?X\<rparr> = ?q"
    using surjective by (metis (mono_tags) Presence.surjective Presence.update_convs(2))
  with Some show ?thesis
    by (simp add: cleanup_session_def fold_leave_s2r get)
qed (simp add: cleanup_session_def)

context presence_keys
begin

lemma rep_try_join:
  assumes rep: "pres_rep own ten pok M p" and "own s = u" and "pok u r" and "s \<notin> M r"
    and ok: "fst (try_join (ten r) r u s L p) = Inr ()"
  shows "pres_rep own ten pok (M(r := insert s (M r))) (snd (try_join (ten r) r u s L p))"
  unfolding try_join_Inr [OF ok]
  by (rule rep_join [OF assms(1-4)])
    (use pres_repD(12) [OF rep, of r] in \<open>auto simp: pres_rep_room [OF rep] room_count_upd\<close>)

lemma rep_try_join_refused:
  assumes rep: "pres_rep own ten pok M p" and "fst (try_join t r u s L p) = Inl e"
  shows "pres_rep own ten pok M (snd (try_join t r u s L p))"
  using try_join_Inl [OF assms(2)] rep pres_rep_touch [OF rep] by auto

lemma rep_fold_leave:
  assumes "pres_rep own ten pok M p" and "own s = u" and "distinct rs"
    and "\<forall>r \<in> set rs. s \<in> M r \<and> ten r = t"
  shows "pres_rep own ten pok (\<lambda>r. if r \<in> set rs then M r - {s} else M r) (fold (\<lambda>r. leave t r u s) rs p)"
  using assms
proof (induction rs arbitrary: M p)
  case (Cons r rs)
  let ?M = "M(r := M r - {s})"
  have "pres_rep own ten pok ?M (leave t r u s p)"
    using rep_leave [OF Cons.prems(1)] Cons.prems(2,4) by simp
  moreover have "\<forall>x \<in> set rs. s \<in> ?M x \<and> ten x = t" using Cons.prems(3,4) by auto
  ultimately have "pres_rep own ten pok (\<lambda>x. if x \<in> set rs then ?M x - {s} else ?M x)
      (fold (\<lambda>r. leave t r u s) rs (leave t r u s p))"
    using Cons.IH [of ?M "leave t r u s p"] Cons.prems(2,3) by (metis distinct.simps(2))
  moreover have "(\<lambda>x. if x \<in> set rs then ?M x - {s} else ?M x) =
      (\<lambda>x. if x \<in> set (r # rs) then M x - {s} else M x)"
    using Cons.prems(3) by (auto simp: fun_eq_iff)
  ultimately show ?case by simp
qed simp

lemma rep_cleanup:
  assumes rep: "pres_rep own ten pok M p" and it: "iter_ok it"
  shows "pres_rep own ten pok (\<lambda>r. M r - {s}) (cleanup_session it (uten (own s)) (own s) s p)"
proof (cases "ps_session_to_rooms p s = None")
  case True
  then have none: "s \<notin> M r" for r
    using dm_ok_None [OF pres_repD(2) [OF rep], of s] pres_repD(6) [OF rep, of s] by auto
  then have "(\<lambda>r. M r - {s}) = M" by auto
  with True rep show ?thesis by (simp add: cleanup_session_def)
next
  case False
  have rooms: "dm_get (ps_session_to_rooms p) s = {r. s \<in> M r}" by (rule pres_repD(6) [OF rep])
  have fin: "finite {r. s \<in> M r}" using dm_ok_finite [OF pres_repD(2) [OF rep], of s] rooms by simp
  let ?rs = "it {r. s \<in> M r}"
  have rs: "set ?rs = {r. s \<in> M r}" "distinct ?rs"
    using iter_ok_set [OF it fin] iter_ok_distinct [OF it fin] by auto
  have "pres_rep own ten pok (\<lambda>r. if r \<in> set ?rs then M r - {s} else M r)
      (fold (\<lambda>r. leave (uten (own s)) r (own s) s) ?rs p)"
    using rs pres_repD(9) [OF rep] pok_tenant by (intro rep_fold_leave [OF rep]) auto
  moreover have "(\<lambda>r. if r \<in> set ?rs then M r - {s} else M r) = (\<lambda>r. M r - {s})"
    using rs(1) by (auto simp: fun_eq_iff)
  ultimately show ?thesis
    using cleanup_session_eq [OF pres_repD(2) [OF rep] it] False rooms by auto
qed

end

section \<open>Orderly histories\<close>

text \<open>
  Orderly histories: a session joins only rooms it is not in, under the limits of the room's tenant,
  leaves only rooms it is in, and may be cleaned up at any time.  The gateway does not enforce this
  discipline on its clients: what fails without it is shown in \<open>rejoin_leaks_user\<close> and
  \<open>stale_leave_drops_user\<close>, what holds without it in the theory \<open>Presence_Limits\<close>.
\<close>

abbreviation members :: "Presence \<Rightarrow> string \<Rightarrow> string set" where
  "members p \<equiv> dm_get (ps_room_to_sessions p)"

inductive orderly_step ::
  "(string \<Rightarrow> string) \<Rightarrow> (string \<Rightarrow> string) \<Rightarrow> (string \<Rightarrow> string) \<Rightarrow> (string \<Rightarrow> string \<Rightarrow> bool) \<Rightarrow> iter_order \<Rightarrow>
   (string \<Rightarrow> TenantLimits) \<Rightarrow> Presence \<Rightarrow> Presence \<Rightarrow> bool"
  for own ten uten pok it L where
  pstep_join: "own s = u \<Longrightarrow> pok u r \<Longrightarrow> s \<notin> members p r \<Longrightarrow>
     orderly_step own ten uten pok it L p (snd (try_join (ten r) r u s (L (ten r)) p))"
| pstep_leave: "own s = u \<Longrightarrow> s \<in> members p r \<Longrightarrow>
     orderly_step own ten uten pok it L p (leave (ten r) r u s p)"
| pstep_cleanup: "own s = u \<Longrightarrow>
     orderly_step own ten uten pok it L p (cleanup_session it (uten u) u s p)"

inductive orderly_reach ::
  "(string \<Rightarrow> string) \<Rightarrow> (string \<Rightarrow> string) \<Rightarrow> (string \<Rightarrow> string) \<Rightarrow> (string \<Rightarrow> string \<Rightarrow> bool) \<Rightarrow> iter_order \<Rightarrow>
   (string \<Rightarrow> TenantLimits) \<Rightarrow> Presence \<Rightarrow> bool"
  for own ten uten pok it L where
  preach_new: "orderly_reach own ten uten pok it L Presence_new"
| preach_step: "orderly_reach own ten uten pok it L p \<Longrightarrow> orderly_step own ten uten pok it L p q \<Longrightarrow>
     orderly_reach own ten uten pok it L q"

inductive_cases orderly_stepE: "orderly_step own ten uten pok it L p q"

lemma card_insert_bound: "finite A \<Longrightarrow> x \<in> A \<or> card A < n \<Longrightarrow> card A \<le> n \<Longrightarrow> card (insert x A) \<le> n"
  by (auto simp: card_insert_if)

context presence_keys
begin

lemma rep_new: "pres_rep own ten pok (\<lambda>_. {}) Presence_new"
  by (simp add: pres_rep_def Presence_new_def dm_simps user_refs_def room_count_def)

lemma step_simulates:
  assumes "orderly_step own ten uten pok it L p q" and it: "iter_ok it" and rep: "pres_rep own ten pok M p"
  shows "\<exists>M'. pres_rep own ten pok M' q"
  using assms(1)
proof (cases rule: orderly_step.cases)
  case (pstep_join s u r)
  have M: "members p = M" using pres_repD(5) [OF rep] by auto
  show ?thesis
  proof (cases "fst (try_join (ten r) r u s (L (ten r)) p)")
    case (Inl e)
    then show ?thesis using rep_try_join_refused [OF rep] pstep_join(1) by blast
  next
    case (Inr x)
    then have ok: "fst (try_join (ten r) r u s (L (ten r)) p) = Inr ()" by simp
    then show ?thesis using rep_try_join [OF rep _ _ _ ok] pstep_join M by auto
  qed
next
  case (pstep_leave s u r)
  then have "pres_rep own ten pok (M(r := M r - {s})) q" using rep_leave [OF rep] pres_repD(5) [OF rep] by simp
  then show ?thesis by blast
next
  case (pstep_cleanup s u)
  then show ?thesis using rep_cleanup [OF rep it, of s] by blast
qed

lemma reach_rep:
  assumes "orderly_reach own ten uten pok it L p" and "iter_ok it"
  shows "pres_rep own ten pok (members p) p"
proof -
  from assms have "\<exists>M. pres_rep own ten pok M p"
  proof (induction rule: orderly_reach.induct)
    case preach_new
    show ?case using rep_new by blast
  next
    case (preach_step p q)
    then show ?case using step_simulates by blast
  qed
  then obtain M where M: "pres_rep own ten pok M p" by blast
  then have "members p = M" using pres_repD(5) by blast
  with M show ?thesis by simp
qed

end

section \<open>The keys of the gateway\<close>

text \<open>
  \<open>run_session\<close> and \<open>RealtimeCtx\<close> build user, session and room keys by prefixing the tenant id, and
  session keys by prefixing tenant and user id.  The tenant of a key is the text before its first colon;
  the user id in a session key is what stands between the first two separators, if the id is clean: if
  it contains no separator and does not run into the next one.  The only user id that \<open>resolve_ticket\<close>
  hands out so far, \<open>user:dev\<close>, is clean; the presence tables are studied for any number of clean ids.
\<close>

definition tenant_of :: "string \<Rightarrow> string" where
  "tenant_of k = takeWhile (\<lambda>c. c \<noteq> CHR '':'') k"

definition dev_user :: string where
  "dev_user = ''user:dev''"

fun until_sep :: "string \<Rightarrow> string" where
  "until_sep [] = []"
| "until_sep (c # cs) =
     (if c = CHR '':'' \<and> cs \<noteq> [] \<and> hd cs = CHR '':'' then [] else c # until_sep cs)"

definition clean :: "string \<Rightarrow> bool" where
  "clean x \<longleftrightarrow> until_sep (x @ ''::'') = x"

text \<open>The part of a key after its tenant; the user key in a session key; the user keys that fit a room.\<close>

definition key_rest :: "string \<Rightarrow> string" where
  "key_rest k = drop (length (tenant_of k) + 2) k"

definition gw_own :: "string \<Rightarrow> string" where
  "gw_own s = key_join (tenant_of s) (until_sep (key_rest s))"

definition gw_pok :: "string \<Rightarrow> string \<Rightarrow> bool" where
  "gw_pok u r \<longleftrightarrow> clean (key_rest u) \<and> u = key_join (tenant_of r) (key_rest u)"

lemma tenant_of_no_colon [simp]: "CHR '':'' \<notin> set (tenant_of k)"
  by (auto simp: tenant_of_def dest: set_takeWhileD)

lemma tenant_of_key_join [simp]: "CHR '':'' \<notin> set t \<Longrightarrow> tenant_of (key_join t x) = t"
  by (induction t) (auto simp: tenant_of_def key_join_def)

lemma until_sep_append: "until_sep (x @ ''::'') = x \<Longrightarrow> until_sep (x @ ''::'' @ y) = x"
proof (induction x)
  case (Cons c x)
  then have c: "\<not> (c = CHR '':'' \<and> hd (x @ ''::'') = CHR '':'')" "until_sep (x @ ''::'') = x"
    by (auto split: if_splits)
  moreover have "hd (x @ ''::'' @ y) = hd (x @ ''::'')" by (cases x) simp_all
  ultimately show ?case using Cons.IH by auto
qed simp

lemma until_sep_key_join: "clean x \<Longrightarrow> until_sep (key_join x y) = x"
  by (simp only: clean_def key_join_def until_sep_append)

lemma clean_dev_user [simp]: "clean dev_user"
  by (simp add: clean_def dev_user_def)

lemma key_rest_key_join [simp]: "CHR '':'' \<notin> set t \<Longrightarrow> key_rest (key_join t x) = x"
  by (simp add: key_rest_def) (simp add: key_join_def)

lemma gw_own_key_join:
  "CHR '':'' \<notin> set t \<Longrightarrow> clean x \<Longrightarrow> gw_own (key_join t (key_join x y)) = key_join t x"
  by (simp add: gw_own_def until_sep_key_join)

lemma tenant_of_gw_own [simp]: "tenant_of (gw_own s) = tenant_of s"
  by (simp add: gw_own_def)

lemma gw_pok_key_join: "gw_pok (key_join (tenant_of r) x) r \<longleftrightarrow> clean x"
  by (simp add: gw_pok_def)

interpretation gk: presence_keys gw_own tenant_of tenant_of gw_pok
proof unfold_locales
  fix u r u' r'
  assume "gw_pok u r" "gw_pok u' r'"
  then obtain x x' where u: "u = key_join (tenant_of r) x" "u' = key_join (tenant_of r') x'" and x: "clean x" "clean x'"
    by (auto simp: gw_pok_def)
  then show "tenant_of r = tenant_of u" by simp
  assume "key_join u r = key_join u' r'"
  then have "key_join (tenant_of r) (key_join x r) = key_join (tenant_of r') (key_join x' r')"
    by (simp add: u key_join_def)
  then have k: "tenant_of r = tenant_of r'" "key_join x r = key_join x' r'"
    using key_join_inject [OF _ tenant_of_no_colon tenant_of_no_colon] by blast+
  with x have "x = x'" using until_sep_key_join by metis
  with u k show "u = u' \<and> r = r'" by simp
qed

abbreviation gw_orderly :: "iter_order \<Rightarrow> (string \<Rightarrow> TenantLimits) \<Rightarrow> Presence \<Rightarrow> bool" where
  "gw_orderly \<equiv> orderly_reach gw_own tenant_of tenant_of gw_pok"

lemma sessions_in_members:
  assumes "dm_ok (ps_room_to_sessions p)" and "iter_ok it"
  shows "set (sessions_in it p r) = members p r \<and> distinct (sessions_in it p r)"
proof (cases "ps_room_to_sessions p r")
  case (Some S)
  then have "finite S" using assms(1) by (auto simp: dm_ok_def)
  with Some show ?thesis
    using iter_ok_set [OF assms(2)] iter_ok_distinct [OF assms(2)]
    by (simp add: sessions_in_def dm_get_def)
qed (simp add: sessions_in_def dm_get_def)

lemma dm_del_add: "dm_ok m \<Longrightarrow> v \<notin> dm_get m k \<Longrightarrow> dm_del (dm_add m k v) k v = m"
  by (rule dm_ext) (auto simp: dm_simps)

section \<open>An example\<close>

text \<open>A room with two users, under a limit of two.\<close>

definition lobby_limits :: TenantLimits where
  "lobby_limits = TenantLimits_default\<lparr>tl_max_users_per_room := 2\<rparr>"

definition lobby :: Presence where
  "lobby =
     snd (try_join ''acme'' ''acme::lobby'' ''acme::bob'' ''acme::bob::1'' lobby_limits
       (snd (try_join ''acme'' ''acme::lobby'' ''acme::ann'' ''acme::ann::1'' lobby_limits Presence_new)))"

lemma lobby_keys [simp]:
  "gw_own ''acme::ann::1'' = ''acme::ann''" "gw_own ''acme::ann::2'' = ''acme::ann''"
  "gw_own ''acme::bob::1'' = ''acme::bob''" "gw_pok ''acme::ann'' ''acme::lobby''"
  "gw_pok ''acme::bob'' ''acme::lobby''" "tenant_of ''acme::lobby'' = ''acme''"
  "gw_own ''acme::cy::1'' = ''acme::cy''" "gw_pok ''acme::cy'' ''acme::lobby''"
  "tenant_of ''acme::ann::1'' = ''acme''"
  by (simp_all add: gw_own_def gw_pok_def clean_def key_rest_def tenant_of_def key_join_def)

lemma lobby_first:
  "members (snd (try_join ''acme'' ''acme::lobby'' ''acme::ann'' ''acme::ann::1'' lobby_limits Presence_new))
   = (\<lambda>_. {})(''acme::lobby'' := {''acme::ann::1''})"
  by (rule ext)
    (simp add: try_join_def lobby_limits_def TenantLimits_default_def Let_def perform_join_tables dm_simps Presence_new_def)

lemma lobby_members: "members lobby = (\<lambda>_. {})(''acme::lobby'' := {''acme::ann::1'', ''acme::bob::1''})"
proof -
  have "\<not> (2 :: u64) \<le> 1" by code_simp
  then show ?thesis
    by (intro ext) (auto simp: lobby_def try_join_def lobby_limits_def TenantLimits_default_def Let_def
        perform_join_tables dm_get_def Presence_new_def dm_add_def)
qed

lemma pres_small_one: "finite S \<Longrightarrow> card S < 2 ^ 64 \<Longrightarrow> pres_small ((\<lambda>_. {})(r := S))"
proof -
  assume "finite S" "card S < 2 ^ 64"
  moreover have "{x. ((\<lambda>_. {})(r := S)) x \<noteq> {}} \<subseteq> {r}" by auto
  then have "card {x. ((\<lambda>_. {})(r := S)) x \<noteq> {}} \<le> 1" using card_mono [of "{r}"] by fastforce
  ultimately show ?thesis by (simp add: pres_small_def)
qed

lemma lobby_reach: "gw_orderly sorted_list_of_set (\<lambda>_. lobby_limits) lobby"
proof -
  let ?J = "\<lambda>u s p. snd (try_join (tenant_of ''acme::lobby'') ''acme::lobby'' u s lobby_limits p)"
  have "gw_orderly sorted_list_of_set (\<lambda>_. lobby_limits) (?J ''acme::ann'' ''acme::ann::1'' Presence_new)"
    by (intro preach_step [OF preach_new pstep_join]) (simp_all add: Presence_new_def dm_simps pres_small_def)
  then have "gw_orderly sorted_list_of_set (\<lambda>_. lobby_limits)
      (?J ''acme::bob'' ''acme::bob::1'' (?J ''acme::ann'' ''acme::ann::1'' Presence_new))"
    by (rule preach_step, intro pstep_join) (simp_all add: lobby_first pres_small_one)
  then show ?thesis by (simp add: lobby_def)
qed

lemma lobby_small: "pres_small (members lobby)"
  unfolding lobby_members by (rule pres_small_one) simp_all

section \<open>Properties\<close>

text \<open>
  C6: In orderly histories presence refines one abstract relation.  In every state reached by joins of
  rooms the session is not in, leaves of rooms it is in, and clean-ups, of any number of sessions and
  users with clean ids, the six tables are determined by the sessions of each room: the room list
  of a session is the converse relation, a room lists exactly the users with a session in it and a user
  exactly its rooms, the reference count of a user in a room is the number of its sessions there (absent
  when none), the counter of a tenant is its number of non-empty rooms; and \<open>sessions_in\<close> lists each
  session of the room once.  The reference counts and user tables do not survive a repeated join or a
  leave of a room the session is not in.
\<close>

theorem presence_refines_membership:
  assumes "gw_orderly it L p" and "iter_ok it"
  shows "pres_rep gw_own tenant_of gw_pok (members p) p
    \<and> set (sessions_in it p r) = members p r \<and> distinct (sessions_in it p r)"
proof -
  have rep: "pres_rep gw_own tenant_of gw_pok (members p) p" using gk.reach_rep [OF assms] by blast
  with sessions_in_members [OF pres_repD(1) [OF rep] assms(2)] show ?thesis by blast
qed

theorem presence_refines_membership_witness:
  "gw_orderly sorted_list_of_set (\<lambda>_. lobby_limits) lobby
   \<and> dm_get (ps_room_to_users lobby) ''acme::lobby'' = {''acme::ann'', ''acme::bob''}
   \<and> ps_user_room_refs lobby (key_join ''acme::ann'' ''acme::lobby'') = Some 1
   \<and> room_count lobby ''acme'' = 1"
proof -
  note rep = presence_refines_membership [OF lobby_reach iter_ok_sorted, THEN conjunct1]
  have "{s \<in> members lobby ''acme::lobby''. gw_own s = ''acme::ann''} = {''acme::ann::1''}"
    using lobby_keys by (auto simp: lobby_members)
  moreover have "{r. members lobby r \<noteq> {} \<and> tenant_of r = ''acme''} = {''acme::lobby''}"
    using lobby_keys by (auto simp: lobby_members)
  ultimately show ?thesis
    using pres_repD(7) [OF rep, of "''acme::lobby''"] pres_repD(10) [OF rep lobby_keys(4)]
      pres_repD(11) [OF rep, of "''acme''"] lobby_reach lobby_keys
    by (simp add: user_refs_def) (simp add: lobby_members)
qed

text \<open>
  C13: The outcome of a join, exactly: in a state reached by an orderly history of any number of users
  (no repeated join, no leave of a room the session is not in), with tables of fewer than \<open>2 ^ 64\<close>
  entries, for a session that is not yet in the room, \<open>try_join\<close> succeeds iff each configured limit admits it (an existing member user or an
  existing room never counts against a limit), and then the session is added to that room and to no
  other; otherwise it fails with \<open>RESOURCE_EXHAUSTED\<close> and no membership changes.
\<close>

theorem try_join_outcome:
  assumes "gw_orderly it L p" and "iter_ok it" and "pres_small (members p)"
    and "gw_own s = u" and "gw_pok u r" and "s \<notin> members p r"
    and "try_join (tenant_of r) r u s lim p = (res, p')"
  shows "(res = Inr () \<longleftrightarrow> join_ok gw_own tenant_of (members p) lim r u)
    \<and> (res = Inr () \<longrightarrow> members p' = (members p)(r := insert s (members p r)))
    \<and> (\<forall>e. res = Inl e \<longrightarrow> client_code e = CC_ResourceExhausted \<and> members p' = members p)"
proof -
  have rep: "pres_rep gw_own tenant_of gw_pok (members p) p"
    using gk.reach_rep [OF assms(1,2)] by blast
  have res: "res = fst (try_join (tenant_of r) r u s lim p)" "p' = snd (try_join (tenant_of r) r u s lim p)"
    using assms(7) by simp_all
  have "members p' = (members p)(r := insert s (members p r))" if "res = Inr ()"
    using pres_repD(5) [OF gk.rep_try_join [OF rep assms(4-6), of lim]] that by (auto simp: res)
  moreover have "client_code e = CC_ResourceExhausted \<and> members p' = members p" if "res = Inl e" for e
    using try_join_Inl [of "tenant_of r" r u s lim p e] that by (auto simp: res)
  ultimately show ?thesis
    using try_join_accepts [OF rep assms(3)] by (simp add: res)
qed

theorem try_join_outcome_witness:
  "(\<exists>e. fst (try_join ''acme'' ''acme::lobby'' ''acme::cy'' ''acme::cy::1'' lobby_limits lobby) = Inl e
      \<and> client_code e = CC_ResourceExhausted)
   \<and> fst (try_join ''acme'' ''acme::lobby'' ''acme::ann'' ''acme::ann::2'' lobby_limits lobby) = Inr ()"
proof -
  let ?j = "\<lambda>u s. try_join ''acme'' ''acme::lobby'' u s lobby_limits lobby"
  have users: "gw_own ` members lobby ''acme::lobby'' = {''acme::ann'', ''acme::bob''}" by (simp add: lobby_members)
  have fresh: "''acme::cy::1'' \<notin> members lobby ''acme::lobby''" "''acme::ann::2'' \<notin> members lobby ''acme::lobby''"
    by (simp_all add: lobby_members)
  note out = try_join_outcome [OF lobby_reach iter_ok_sorted lobby_small, where r = "''acme::lobby''" and lim = lobby_limits, unfolded lobby_keys]
  obtain c pc where c: "?j ''acme::cy'' ''acme::cy::1'' = (c, pc)" by fastforce
  obtain a pa where a: "?j ''acme::ann'' ''acme::ann::2'' = (a, pa)" by fastforce
  have "\<not> join_ok gw_own tenant_of (members lobby) lobby_limits ''acme::lobby'' ''acme::cy''"
    by (simp add: join_ok_def users lobby_limits_def TenantLimits_default_def)
  then have "c \<noteq> Inr ()" using out [OF _ _ fresh(1) c] by simp
  then obtain e where "c = Inl e" by (cases c) auto
  then have "fst (?j ''acme::cy'' ''acme::cy::1'') = Inl e" "client_code e = CC_ResourceExhausted"
    using out [OF _ _ fresh(1) c] c by simp_all
  moreover have "join_ok gw_own tenant_of (members lobby) lobby_limits ''acme::lobby'' ''acme::ann''"
    by (auto simp: join_ok_def users lobby_limits_def TenantLimits_default_def lobby_members)
  then have "fst (?j ''acme::ann'' ''acme::ann::2'') = Inr ()" using out [OF _ _ fresh(2) a] a by simp
  ultimately show ?thesis by blast
qed

text \<open>
  C19: After an orderly history, cleaning up a session takes it out of every room and touches no other
  membership, for every iteration order; a second cleanup of the same session does nothing.
\<close>

theorem cleanup_removes_exactly:
  assumes "gw_orderly it L p" and "iter_ok it"
    and "q = cleanup_session it (tenant_of s) (gw_own s) s p"
  shows "members q r = members p r - {s}
    \<and> dm_get (ps_session_to_rooms q) s = {}
    \<and> cleanup_session it (tenant_of s) (gw_own s) s q = q"
proof -
  have rep: "pres_rep gw_own tenant_of gw_pok (members p) p"
    using gk.reach_rep [OF assms(1,2)] by blast
  have "tenant_of (gw_own s) = tenant_of s" by (simp add: gw_own_def)
  with gk.rep_cleanup [OF rep assms(2), of s]
  have q: "pres_rep gw_own tenant_of gw_pok (\<lambda>r. members p r - {s}) q" by (simp add: assms(3))
  then have none: "dm_get (ps_session_to_rooms q) s = {}" by (simp add: pres_repD(6))
  then have "ps_session_to_rooms q s = None" using dm_ok_None [OF pres_repD(2) [OF q]] by blast
  with none q show ?thesis by (simp add: pres_repD(5) cleanup_session_def)
qed

theorem cleanup_removes_exactly_witness:
  "members lobby ''acme::lobby'' = {''acme::ann::1'', ''acme::bob::1''}
   \<and> members (cleanup_session sorted_list_of_set ''acme'' ''acme::ann'' ''acme::ann::1'' lobby) ''acme::lobby''
     = {''acme::bob::1''}"
  using cleanup_removes_exactly [OF lobby_reach iter_ok_sorted refl, of "''acme::ann::1''" "''acme::lobby''"]
  by (simp add: lobby_members)

text \<open>
  C21: Leaving undoes joining: after an orderly history, if a session joins a room it was not in and
  leaves it again, every table is the one it was and so is the room counter of every tenant.
\<close>

theorem join_leave_roundtrip:
  assumes "gw_orderly it L p" and "iter_ok it"
    and "gw_own s = u" and "gw_pok u r" and "s \<notin> members p r"
    and "try_join (tenant_of r) r u s lim p = (Inr (), p')"
    and "q = leave (tenant_of r) r u s p'"
  shows "ps_room_to_sessions q = ps_room_to_sessions p \<and> ps_session_to_rooms q = ps_session_to_rooms p
    \<and> ps_room_to_users q = ps_room_to_users p \<and> ps_user_to_rooms q = ps_user_to_rooms p
    \<and> ps_user_room_refs q = ps_user_room_refs p \<and> room_count q = room_count p"
proof -
  have rep: "pres_rep gw_own tenant_of gw_pok (members p) p"
    using gk.reach_rep [OF assms(1,2)] by blast
  have ok: "fst (try_join (tenant_of r) r u s lim p) = Inr ()" and p': "p' = snd (try_join (tenant_of r) r u s lim p)"
    using assms(6) by simp_all
  let ?M = "(members p)(r := insert s (members p r))"
  have rep': "pres_rep gw_own tenant_of gw_pok ?M p'"
    using gk.rep_try_join [OF rep assms(3-5) ok] by (simp add: p')
  have "pres_rep gw_own tenant_of gw_pok (?M(r := ?M r - {s})) q"
    unfolding assms(7) by (rule gk.rep_leave [OF rep']) (simp_all add: assms(3))
  moreover have "?M(r := ?M r - {s}) = members p" using assms(5) by auto
  ultimately have rep'': "pres_rep gw_own tenant_of gw_pok (members p) q" by simp
  have tables: "ps_room_to_sessions q = ps_room_to_sessions p" "ps_session_to_rooms q = ps_session_to_rooms p"
    "ps_room_to_users q = ps_room_to_users p" "ps_user_to_rooms q = ps_user_to_rooms p"
    by (rule dm_ext [OF pres_repD(1) [OF rep''] pres_repD(1) [OF rep]], rule pres_repD(5) [OF rep''],
        rule dm_ext [OF pres_repD(2) [OF rep''] pres_repD(2) [OF rep]],
        simp only: pres_repD(6) [OF rep''] pres_repD(6) [OF rep],
        rule dm_ext [OF pres_repD(3) [OF rep''] pres_repD(3) [OF rep]],
        simp only: pres_repD(7) [OF rep''] pres_repD(7) [OF rep],
        rule dm_ext [OF pres_repD(4) [OF rep''] pres_repD(4) [OF rep]],
        simp only: pres_repD(8) [OF rep''] pres_repD(8) [OF rep])
  have "ps_user_room_refs p (key_join u r) \<noteq> Some 0"
    using pres_repD(10) [OF rep assms(4)] pres_rep_finite(1) [OF rep, of r] by (auto simp: user_refs_def)
  then have "ps_user_room_refs q = ps_user_room_refs p"
    by (auto simp: assms(7) p' try_join_Inr [OF ok] leave_tables perform_join_tables fun_eq_iff
        split: option.splits)
  moreover have "room_count q = room_count p"
    by (auto simp: pres_repD(11) [OF rep] pres_repD(11) [OF rep''])
  ultimately show ?thesis using tables by blast
qed

theorem join_leave_roundtrip_witness:
  "\<exists>p'. try_join ''acme'' ''acme::lobby'' ''acme::ann'' ''acme::ann::2'' lobby_limits lobby = (Inr (), p')
     \<and> ps_user_room_refs (leave ''acme'' ''acme::lobby'' ''acme::ann'' ''acme::ann::2'' p') = ps_user_room_refs lobby
     \<and> room_count (leave ''acme'' ''acme::lobby'' ''acme::ann'' ''acme::ann::2'' p') = room_count lobby"
proof -
  let ?j = "try_join ''acme'' ''acme::lobby'' ''acme::ann'' ''acme::ann::2'' lobby_limits lobby"
  have new: "''acme::ann::2'' \<notin> members lobby ''acme::lobby''" by (simp add: lobby_members)
  have rep: "pres_rep gw_own tenant_of gw_pok (members lobby) lobby"
    using gk.reach_rep [OF lobby_reach iter_ok_sorted] by blast
  have "join_ok gw_own tenant_of (members lobby) lobby_limits ''acme::lobby'' ''acme::ann''"
    by (simp add: join_ok_def lobby_limits_def TenantLimits_default_def) (simp add: lobby_members)
  then have "fst ?j = Inr ()"
    using try_join_accepts [OF rep lobby_small, of "''acme::lobby''" "''acme::ann''" "''acme::ann::2''" lobby_limits] by simp
  then obtain p' where eq: "?j = (Inr (), p')" by (cases ?j) simp
  from join_leave_roundtrip [OF lobby_reach iter_ok_sorted lobby_keys(2,4) new, unfolded lobby_keys, OF eq refl] eq
  show ?thesis by blast
qed

text \<open>
  C25: Joining a room twice leaks.  A session that joins a room it is already in raises the reference
  count again, but its cleanup (or one leave) lowers it once: afterwards the room has no session, yet
  still lists the user, the user still lists the room, and under a limit of one user per room the
  empty room refuses every other user.
\<close>

theorem rejoin_leaks_user:
  "let p1 = snd (try_join t r u s TenantLimits_default Presence_new);
       p2 = snd (try_join t r u s TenantLimits_default p1);
       p3 = cleanup_session sorted_list_of_set t u s p2
   in members p3 r = {} \<and> dm_get (ps_session_to_rooms p3) s = {}
    \<and> dm_get (ps_room_to_users p3) r = {u} \<and> dm_get (ps_user_to_rooms p3) u = {r}
    \<and> fst (try_join t r (u @ ''2'') s' (TenantLimits_default\<lparr>tl_max_users_per_room := 1\<rparr>) p3)
        = Inl (ResourceExhausted ''room user limit reached'')"
  by (simp add: Let_def try_join_def TenantLimits_default_def perform_join_def Presence_new_def
      cleanup_session_def leave_def dm_add_def dm_del_def dm_get_def room_count_def)

text \<open>
  A stale leave removes another session's user entry.  If a session that is not in the room
  leaves it (as an evicted connection does that still holds an active room) while another session of
  the same user is there, the count of that user drops to zero: the room keeps the other session but
  no longer lists its user, so the user limits no longer see it.
\<close>

theorem stale_leave_drops_user:
  assumes "s \<noteq> s'"
  shows "let p1 = snd (try_join t r u s TenantLimits_default Presence_new);
             p2 = leave t r u s' p1
         in members p2 r = {s} \<and> dm_get (ps_room_to_users p2) r = {} \<and> dm_get (ps_user_to_rooms p2) u = {}"
  using assms
  by (simp add: Let_def try_join_def TenantLimits_default_def perform_join_def Presence_new_def
      leave_def dm_add_def dm_del_def dm_get_def room_count_def)

theorem stale_leave_drops_user_witness:
  "let p1 = snd (try_join ''a'' ''a::r'' ''a::u'' ''a::u::1'' TenantLimits_default Presence_new);
       p2 = leave ''a'' ''a::r'' ''a::u'' ''a::u::2'' p1
   in members p2 ''a::r'' = {''a::u::1''} \<and> dm_get (ps_room_to_users p2) ''a::r'' = {}
    \<and> dm_get (ps_user_to_rooms p2) ''a::u'' = {}"
  by (rule stale_leave_drops_user) simp

end
