(* ===== verification/Realtime.thy ===== *)
theory Realtime
  imports Codec Session_Registry Presence
begin

text \<open>
  The egress engine (\<open>crates/wsprism-gateway/src/realtime/types.rs\<close> and
  \<open>realtime/core/realtime.rs\<close>): outgoing messages, the bounded channel of each session, fan-out to
  a user, a session or a room with lossy or reliable delivery, the egress counters and the
  per-message context with its keys.  \<open>serde_json\<close> serialisation is an argument; so is what the
  receiver of a full channel does while a reliable send waits for it.
\<close>

section \<open>Messages\<close>

datatype json =
    JNull
  | JBool bool
  | JNum int
  | JStr string
  | JArr "json list"
  | JObj "(string \<times> json) list"

type_synonym json_encoder = "json \<Rightarrow> string + string"

datatype QoS =
    Lossy
  | Reliable u64

definition QoS_default :: QoS where
  "QoS_default = Lossy"

datatype Payload =
    TextJson json
  | Utf8Bytes bytes
  | Binary bytes

record Outgoing =
  out_qos :: QoS
  out_payload :: Payload

datatype PreparedMsg =
    PText string
  | PBinary bytes

text \<open>
  \<open>std::str::from_utf8\<close>: the validator of the standard library.  An error carries the index of the
  first invalid sequence and its length, or no length when the input ends inside a sequence.
\<close>

definition utf8_cont :: "u8 \<Rightarrow> bool" where
  "utf8_cont b \<longleftrightarrow> 0x80 \<le> b \<and> b \<le> 0xBF"

definition utf8_second3 :: "u8 \<Rightarrow> u8 \<Rightarrow> bool" where
  "utf8_second3 a b \<longleftrightarrow>
     (a = 0xE0 \<and> 0xA0 \<le> b \<and> b \<le> 0xBF) \<or> (0xE1 \<le> a \<and> a \<le> 0xEC \<and> utf8_cont b)
   \<or> (a = 0xED \<and> 0x80 \<le> b \<and> b \<le> 0x9F) \<or> (0xEE \<le> a \<and> a \<le> 0xEF \<and> utf8_cont b)"

definition utf8_second4 :: "u8 \<Rightarrow> u8 \<Rightarrow> bool" where
  "utf8_second4 a b \<longleftrightarrow>
     (a = 0xF0 \<and> 0x90 \<le> b \<and> b \<le> 0xBF) \<or> (0xF1 \<le> a \<and> a \<le> 0xF3 \<and> utf8_cont b)
   \<or> (a = 0xF4 \<and> 0x80 \<le> b \<and> b \<le> 0x8F)"

text \<open>
  The first sequence of a non-empty input: how many bytes it takes, or the length of the error.
\<close>

definition utf8_char :: "u8 \<Rightarrow> bytes \<Rightarrow> nat option + nat" where
  "utf8_char a bs =
     (if a < 0x80 then Inr 1
      else if 0xC2 \<le> a \<and> a \<le> 0xDF then
        (case bs of
           [] \<Rightarrow> Inl None
         | b # _ \<Rightarrow> if utf8_cont b then Inr 2 else Inl (Some 1))
      else if 0xE0 \<le> a \<and> a \<le> 0xEF then
        (case bs of
           [] \<Rightarrow> Inl None
         | b # cs \<Rightarrow>
             if \<not> utf8_second3 a b then Inl (Some 1)
             else (case cs of
                     [] \<Rightarrow> Inl None
                   | c # _ \<Rightarrow> if utf8_cont c then Inr 3 else Inl (Some 2)))
      else if 0xF0 \<le> a \<and> a \<le> 0xF4 then
        (case bs of
           [] \<Rightarrow> Inl None
         | b # cs \<Rightarrow>
             if \<not> utf8_second4 a b then Inl (Some 1)
             else (case cs of
                     [] \<Rightarrow> Inl None
                   | c # ds \<Rightarrow>
                       if \<not> utf8_cont c then Inl (Some 2)
                       else (case ds of
                               [] \<Rightarrow> Inl None
                             | d # _ \<Rightarrow> if utf8_cont d then Inr 4 else Inl (Some 3))))
      else Inl (Some 1))"

function utf8_check :: "nat \<Rightarrow> bytes \<Rightarrow> (nat \<times> nat option) option" where
  "utf8_check i [] = None"
| "utf8_check i (a # bs) =
     (case utf8_char a bs of
        Inl e \<Rightarrow> Some (i, e)
      | Inr n \<Rightarrow> utf8_check (i + n) (drop (n - 1) bs))"
  by pat_completeness auto
termination by (relation "measure (\<lambda>(i, bs). length bs)") auto

definition utf8_error_text :: "nat \<times> nat option \<Rightarrow> string" where
  "utf8_error_text e =
     (case snd e of
        Some n \<Rightarrow> ''invalid utf-8 sequence of '' @ show_nat n @ '' bytes from index '' @ show_nat (fst e)
      | None \<Rightarrow> ''incomplete utf-8 byte sequence from index '' @ show_nat (fst e))"

definition from_utf8 :: "bytes \<Rightarrow> string + string" where
  "from_utf8 b =
     (case utf8_check 0 b of
        Some e \<Rightarrow> Inl (utf8_error_text e)
      | None \<Rightarrow> Inr (map (\<lambda>x. char_of (unat x)) b))"

definition prepare :: "json_encoder \<Rightarrow> Outgoing \<Rightarrow> PreparedMsg result" where
  "prepare enc out =
     (case out_payload out of
        TextJson v \<Rightarrow>
          (case enc v of
             Inl e \<Rightarrow> Inl (BadRequest (''json encode failed: '' @ e))
           | Inr s \<Rightarrow> Inr (PText s))
      | Utf8Bytes b \<Rightarrow>
          (case from_utf8 b of
             Inl e \<Rightarrow> Inl (BadRequest (''utf8 invalid: '' @ e))
           | Inr s \<Rightarrow> Inr (PText s))
      | Binary b \<Rightarrow> Inr (PBinary b))"

fun to_ws_message :: "PreparedMsg \<Rightarrow> Message" where
  "to_ws_message (PText s) = MText s"
| "to_ws_message (PBinary b) = MBinary b"

section \<open>Channels\<close>

text \<open>
  The bounded \<open>tokio\<close> channel of a session: the messages queued, those the receiver has taken out,
  and whether the receiver still exists.  A \<^typ>\<open>Connection\<close> is the sending half, named by the
  identity of its channel.
\<close>

record channel =
  ch_cap :: nat
  ch_queue :: "Message list"
  ch_taken :: "Message list"
  ch_open :: bool

type_synonym channels = "nat \<rightharpoonup> channel"

definition mpsc_channel :: "nat \<Rightarrow> channel" where
  "mpsc_channel cap = \<lparr>ch_cap = cap, ch_queue = [], ch_taken = [], ch_open = True\<rparr>"

definition ch_push :: "Message \<Rightarrow> channel \<Rightarrow> channel" where
  "ch_push msg c = c\<lparr>ch_queue := ch_queue c @ [msg]\<rparr>"

definition ch_take :: "nat \<Rightarrow> channel \<Rightarrow> channel" where
  "ch_take n c = c\<lparr>ch_queue := drop n (ch_queue c), ch_taken := ch_taken c @ take n (ch_queue c)\<rparr>"

definition ch_full :: "channel \<Rightarrow> bool" where
  "ch_full c \<longleftrightarrow> ch_cap c \<le> length (ch_queue c)"

definition try_send :: "nat \<Rightarrow> Message \<Rightarrow> channels \<Rightarrow> bool \<times> channels" where
  "try_send tx msg chans =
     (case chans tx of
        None \<Rightarrow> (False, chans)
      | Some c \<Rightarrow>
          if \<not> ch_open c \<or> ch_full c then (False, chans)
          else (True, chans(tx \<mapsto> ch_push msg c)))"

text \<open>
  \<open>send(..).await\<close>: on a full channel it waits.  What happens meanwhile is up to the receiver: it
  takes messages out, goes away, or makes no progress as long as the sender waits.
\<close>

datatype wait_outcome = Drained nat | ReceiverGone | NoProgress
datatype send_outcome = Sent | SendClosed | Pending

type_synonym wait_oracle = "nat \<Rightarrow> wait_outcome"

definition send_await :: "wait_oracle \<Rightarrow> nat \<Rightarrow> Message \<Rightarrow> channels \<Rightarrow> send_outcome \<times> channels" where
  "send_await w tx msg chans =
     (case chans tx of
        None \<Rightarrow> (SendClosed, chans)
      | Some c \<Rightarrow>
          if \<not> ch_open c then (SendClosed, chans)
          else if \<not> ch_full c then (Sent, chans(tx \<mapsto> ch_push msg c))
          else
            (case w tx of
               Drained n \<Rightarrow> (Sent, chans(tx \<mapsto> ch_push msg (ch_take (max 1 n) c)))
             | ReceiverGone \<Rightarrow> (SendClosed, chans(tx \<mapsto> c\<lparr>ch_open := False\<rparr>))
             | NoProgress \<Rightarrow> (Pending, chans)))"

section \<open>The realtime core\<close>

record RealtimeCore =
  rc_sessions :: SessionRegistry
  rc_presence :: Presence

definition RealtimeCore_new :: RealtimeCore where
  "RealtimeCore_new = \<lparr>rc_sessions = SessionRegistry_new, rc_presence = Presence_new\<rparr>"

text \<open>The core with the two process-wide counters and the channels its connections refer to.\<close>

record Runtime =
  rt_core :: RealtimeCore
  rt_chans :: channels
  rt_drop_count :: u64
  rt_send_fail_count :: u64

definition Runtime_new :: Runtime where
  "Runtime_new =
     \<lparr>rt_core = RealtimeCore_new, rt_chans = Map.empty, rt_drop_count = 0, rt_send_fail_count = 0\<rparr>"

definition egress_drop_count :: "Runtime \<Rightarrow> u64" where
  "egress_drop_count rt = rt_drop_count rt"

definition egress_send_fail_count :: "Runtime \<Rightarrow> u64" where
  "egress_send_fail_count rt = rt_send_fail_count rt"

text \<open>\<open>if conn.tx.try_send(msg).is_err() { DROP_COUNT.fetch_add(1) }\<close>; the sampled log line is left out.\<close>

definition lossy_send :: "nat \<Rightarrow> Message \<Rightarrow> Runtime \<Rightarrow> Runtime" where
  "lossy_send tx msg rt =
     (let (ok, chans) = try_send tx msg (rt_chans rt);
          rt = rt\<lparr>rt_chans := chans\<rparr>
      in if ok then rt else rt\<lparr>rt_drop_count := rt_drop_count rt + 1\<rparr>)"

definition best_effort_shutdown_all :: "iter_order \<Rightarrow> string \<Rightarrow> Runtime \<Rightarrow> Runtime" where
  "best_effort_shutdown_all it reason rt =
     fold (\<lambda>(session_key, conn). lossy_send (conn_tx conn) (MClose (Some (1001, reason))))
       (all_sessions it (rc_sessions (rt_core rt))) rt"

definition send_to_user ::
  "iter_order \<Rightarrow> json_encoder \<Rightarrow> string \<Rightarrow> Outgoing \<Rightarrow> Runtime \<Rightarrow> unit result \<times> Runtime" where
  "send_to_user it enc user_key out rt =
     (let conns = get_user_sessions it (rc_sessions (rt_core rt)) user_key in
      if conns = [] then (Inl (BadRequest ''user not connected''), rt)
      else
        (case prepare enc out of
           Inl e \<Rightarrow> (Inl e, rt)
         | Inr prepared \<Rightarrow>
             (Inr (), fold (\<lambda>c. lossy_send (conn_tx c) (to_ws_message prepared)) conns rt)))"

definition send_to_session ::
  "json_encoder \<Rightarrow> string \<Rightarrow> Outgoing \<Rightarrow> Runtime \<Rightarrow> unit result \<times> Runtime" where
  "send_to_session enc session_key out rt =
     (case get_session (rc_sessions (rt_core rt)) session_key of
        None \<Rightarrow> (Inl (BadRequest ''session not connected''), rt)
      | Some conn \<Rightarrow>
          (case prepare enc out of
             Inl e \<Rightarrow> (Inl e, rt)
           | Inr prepared \<Rightarrow> (Inr (), lossy_send (conn_tx conn) (to_ws_message prepared) rt)))"

definition publish_room_lossy ::
  "iter_order \<Rightarrow> json_encoder \<Rightarrow> string \<Rightarrow> Outgoing \<Rightarrow> Runtime \<Rightarrow> unit result \<times> Runtime" where
  "publish_room_lossy it enc room_key out rt =
     (case prepare enc out of
        Inl e \<Rightarrow> (Inl e, rt)
      | Inr prepared \<Rightarrow>
          (let sessions = sessions_in it (rc_presence (rt_core rt)) room_key in
           (Inr (),
            fold (\<lambda>sid rt. case get_session (rc_sessions (rt_core rt)) sid of
                    None \<Rightarrow> rt
                  | Some conn \<Rightarrow> lossy_send (conn_tx conn) (to_ws_message prepared) rt) sessions rt)))"

text \<open>
  One future of a reliable publication: with a time limit, only its expiry is counted; without, an
  error of the send is.  The flag says whether the future completes.
\<close>

definition reliable_send :: "wait_oracle \<Rightarrow> bool \<Rightarrow> nat \<Rightarrow> Message \<Rightarrow> Runtime \<Rightarrow> bool \<times> Runtime" where
  "reliable_send w do_timeout tx msg rt =
     (let (outcome, chans) = send_await w tx msg (rt_chans rt);
          rt = rt\<lparr>rt_chans := chans\<rparr>;
          failed = rt\<lparr>rt_send_fail_count := rt_send_fail_count rt + 1\<rparr>
      in if do_timeout then (True, if outcome = Pending then failed else rt)
         else (case outcome of
                 Sent \<Rightarrow> (True, rt)
               | SendClosed \<Rightarrow> (True, failed)
               | Pending \<Rightarrow> (False, rt)))"

text \<open>The futures run concurrently; the call returns when all have completed (\<open>None\<close>: never).\<close>

definition publish_room_reliable ::
  "iter_order \<Rightarrow> json_encoder \<Rightarrow> wait_oracle \<Rightarrow> string \<Rightarrow> Outgoing \<Rightarrow> Runtime
     \<Rightarrow> unit result option \<times> Runtime" where
  "publish_room_reliable it enc w room_key out rt =
     (case prepare enc out of
        Inl e \<Rightarrow> (Some (Inl e), rt)
      | Inr prepared \<Rightarrow>
          (let sessions = sessions_in it (rc_presence (rt_core rt)) room_key;
               do_timeout = (case out_qos out of Reliable timeout_ms \<Rightarrow> timeout_ms > 0 | Lossy \<Rightarrow> False);
               (completed, rt) =
                 fold (\<lambda>sid (completed, rt). case get_session (rc_sessions (rt_core rt)) sid of
                         None \<Rightarrow> (completed, rt)
                       | Some conn \<Rightarrow>
                           (let (ok, rt) = reliable_send w do_timeout (conn_tx conn) (to_ws_message prepared) rt
                            in (completed \<and> ok, rt)))
                   sessions (True, rt)
           in (if completed then Some (Inr ()) else None, rt)))"

section \<open>The per-message context\<close>

record RealtimeCtx =
  ctx_tenant :: string
  ctx_user :: string
  ctx_user_key :: string
  ctx_session_id :: string
  ctx_session_key :: string
  ctx_trace_id :: string
  ctx_active_room :: "string option"

definition RealtimeCtx_new ::
  "string \<Rightarrow> string \<Rightarrow> string \<Rightarrow> string \<Rightarrow> string option \<Rightarrow> RealtimeCtx" where
  "RealtimeCtx_new tenant user session_id trace_id active_room =
     \<lparr>ctx_tenant = tenant, ctx_user = user, ctx_user_key = key_join tenant user,
      ctx_session_id = session_id, ctx_session_key = key_join tenant (key_join user session_id),
      ctx_trace_id = trace_id, ctx_active_room = active_room\<rparr>"

definition ctx_room_key :: "RealtimeCtx \<Rightarrow> string \<Rightarrow> string" where
  "ctx_room_key ctx room = key_join (ctx_tenant ctx) room"

definition join_room_with_limits ::
  "RealtimeCtx \<Rightarrow> string \<Rightarrow> TenantLimits \<Rightarrow> Runtime \<Rightarrow> unit result \<times> Runtime" where
  "join_room_with_limits ctx room limits rt =
     (let core = rt_core rt;
          (res, p) = try_join (ctx_tenant ctx) (ctx_room_key ctx room) (ctx_user_key ctx)
                       (ctx_session_key ctx) limits (rc_presence core)
      in (res, rt\<lparr>rt_core := core\<lparr>rc_presence := p\<rparr>\<rparr>))"

definition leave_room :: "RealtimeCtx \<Rightarrow> string \<Rightarrow> Runtime \<Rightarrow> Runtime" where
  "leave_room ctx room rt =
     (let core = rt_core rt in
      rt\<lparr>rt_core := core\<lparr>rc_presence :=
        leave (ctx_tenant ctx) (ctx_room_key ctx room) (ctx_user_key ctx) (ctx_session_key ctx)
          (rc_presence core)\<rparr>\<rparr>)"

definition ctx_send_to_user ::
  "iter_order \<Rightarrow> json_encoder \<Rightarrow> RealtimeCtx \<Rightarrow> Outgoing \<Rightarrow> Runtime \<Rightarrow> unit result \<times> Runtime" where
  "ctx_send_to_user it enc ctx out rt = send_to_user it enc (ctx_user_key ctx) out rt"

definition ctx_send_to_session ::
  "json_encoder \<Rightarrow> RealtimeCtx \<Rightarrow> Outgoing \<Rightarrow> Runtime \<Rightarrow> unit result \<times> Runtime" where
  "ctx_send_to_session enc ctx out rt = send_to_session enc (ctx_session_key ctx) out rt"

definition ctx_publish_room_lossy ::
  "iter_order \<Rightarrow> json_encoder \<Rightarrow> RealtimeCtx \<Rightarrow> string \<Rightarrow> Outgoing \<Rightarrow> Runtime \<Rightarrow> unit result \<times> Runtime" where
  "ctx_publish_room_lossy it enc ctx room out rt =
     publish_room_lossy it enc (ctx_room_key ctx room) out rt"

definition ctx_publish_room_reliable ::
  "iter_order \<Rightarrow> json_encoder \<Rightarrow> wait_oracle \<Rightarrow> RealtimeCtx \<Rightarrow> string \<Rightarrow> Outgoing \<Rightarrow> Runtime
     \<Rightarrow> unit result option \<times> Runtime" where
  "ctx_publish_room_reliable it enc w ctx room out rt =
     publish_room_reliable it enc w (ctx_room_key ctx room) out rt"

section \<open>Fan-out\<close>

text \<open>
  What a channel has been given, in order: what its receiver took out and what still waits.
\<close>

definition chan_log :: "Runtime \<Rightarrow> nat \<Rightarrow> Message list" where
  "chan_log rt tx = (case rt_chans rt tx of None \<Rightarrow> [] | Some c \<Rightarrow> ch_taken c @ ch_queue c)"

definition has_room :: "Runtime \<Rightarrow> nat \<Rightarrow> bool" where
  "has_room rt tx = (case rt_chans rt tx of None \<Rightarrow> False | Some c \<Rightarrow> ch_open c \<and> \<not> ch_full c)"

definition is_open :: "Runtime \<Rightarrow> nat \<Rightarrow> bool" where
  "is_open rt tx = (case rt_chans rt tx of None \<Rightarrow> False | Some c \<Rightarrow> ch_open c)"

text \<open>
  The contract of a per-channel send: it appends the message to the one channel it names when that
  channel accepts it, leaves the others alone, and adds one to a failure counter in the cases it
  counts.  Sending one message to several distinct channels then does so exactly once for each.
\<close>

locale fanout =
  fixes send :: "nat \<Rightarrow> Message \<Rightarrow> 's \<Rightarrow> 's"
    and log_of :: "'s \<Rightarrow> nat \<Rightarrow> Message list"
    and accepts :: "'s \<Rightarrow> nat \<Rightarrow> bool"
    and counted :: "'s \<Rightarrow> nat \<Rightarrow> bool"
    and failures :: "'s \<Rightarrow> u64"
    and frame :: "'s \<Rightarrow> 'f"
  assumes log_send: "log_of (send tx m s) tx' = log_of s tx' @ (if tx' = tx \<and> accepts s tx then [m] else [])"
    and accepts_other: "tx' \<noteq> tx \<Longrightarrow> accepts (send tx m s) tx' = accepts s tx'"
    and counted_other: "tx' \<noteq> tx \<Longrightarrow> counted (send tx m s) tx' = counted s tx'"
    and failures_send: "failures (send tx m s) = failures s + (if counted s tx then 1 else 0)"
    and frame_send: "frame (send tx m s) = frame s"
begin

lemma fanout_log:
  "distinct txs \<Longrightarrow> log_of (fold (\<lambda>tx. send tx m) txs s) tx' =
     log_of s tx' @ (if tx' \<in> set txs \<and> accepts s tx' then [m] else [])"
proof (induction txs arbitrary: s)
  case (Cons tx txs)
  then show ?case by (cases "tx' = tx") (auto simp: log_send accepts_other)
qed simp

lemma fanout_failures:
  "distinct txs \<Longrightarrow> failures (fold (\<lambda>tx. send tx m) txs s) =
     failures s + of_nat (card {tx \<in> set txs. counted s tx})"
proof (induction txs arbitrary: s)
  case (Cons tx txs)
  have "counted (send tx m s) x = counted s x" if "x \<in> set txs" for x
    using that Cons.prems by (intro counted_other) auto
  then have "{x \<in> set txs. counted (send tx m s) x} = {x \<in> set txs. counted s x}"
    by (intro Collect_cong) blast
  moreover have "{x \<in> set (tx # txs). counted s x} =
    (if counted s tx then insert tx {x \<in> set txs. counted s x} else {x \<in> set txs. counted s x})"
    by auto
  ultimately show ?case using Cons
    by (simp add: failures_send card_insert_if)
qed simp

lemma fanout_frame: "frame (fold (\<lambda>tx. send tx m) txs s) = frame s"
  by (induction txs arbitrary: s) (simp_all add: frame_send)

end

abbreviation lossy_frame :: "Runtime \<Rightarrow> RealtimeCore \<times> u64" where
  "lossy_frame rt \<equiv> (rt_core rt, rt_send_fail_count rt)"

interpretation lossy: fanout lossy_send chan_log has_room "\<lambda>rt tx. \<not> has_room rt tx" rt_drop_count lossy_frame
  by unfold_locales
    (auto simp: lossy_send_def try_send_def chan_log_def has_room_def ch_push_def Let_def split: option.splits)

definition reliable_accepts :: "wait_oracle \<Rightarrow> Runtime \<Rightarrow> nat \<Rightarrow> bool" where
  "reliable_accepts w rt tx \<longleftrightarrow>
     has_room rt tx \<or> is_open rt tx \<and> (case w tx of Drained n \<Rightarrow> True | _ \<Rightarrow> False)"

definition reliable_counted :: "wait_oracle \<Rightarrow> bool \<Rightarrow> Runtime \<Rightarrow> nat \<Rightarrow> bool" where
  "reliable_counted w do_timeout rt tx \<longleftrightarrow>
     (if do_timeout then is_open rt tx \<and> \<not> has_room rt tx \<and> w tx = NoProgress
      else \<not> is_open rt tx \<or> \<not> has_room rt tx \<and> w tx = ReceiverGone)"

abbreviation reliable_frame :: "Runtime \<Rightarrow> RealtimeCore \<times> u64" where
  "reliable_frame rt \<equiv> (rt_core rt, rt_drop_count rt)"

abbreviation reliable_step :: "wait_oracle \<Rightarrow> bool \<Rightarrow> nat \<Rightarrow> Message \<Rightarrow> Runtime \<Rightarrow> Runtime" where
  "reliable_step w do_timeout tx m rt \<equiv> snd (reliable_send w do_timeout tx m rt)"

lemmas reliable_defs = reliable_send_def send_await_def chan_log_def has_room_def is_open_def
  reliable_accepts_def reliable_counted_def ch_push_def ch_take_def Let_def

interpretation rel: fanout "reliable_step w do_timeout" chan_log "reliable_accepts w"
  "reliable_counted w do_timeout" rt_send_fail_count reliable_frame
  for w do_timeout
  by unfold_locales (auto simp: reliable_defs split: option.splits wait_outcome.splits send_outcome.splits)

section \<open>Targets\<close>

definition session_tx :: "Runtime \<Rightarrow> string \<Rightarrow> nat option" where
  "session_tx rt sid = map_option conn_tx (get_session (rc_sessions (rt_core rt)) sid)"

text \<open>No two sessions share a channel.\<close>

definition conns_distinct :: "Runtime \<Rightarrow> bool" where
  "conns_distinct rt \<longleftrightarrow> inj_on (session_tx rt) (dom (sr_sessions (rc_sessions (rt_core rt))))"

definition room_txs :: "Runtime \<Rightarrow> string \<Rightarrow> nat set" where
  "room_txs rt room_key = {tx. \<exists>s \<in> members (rc_presence (rt_core rt)) room_key. session_tx rt s = Some tx}"

definition user_txs :: "Runtime \<Rightarrow> string \<Rightarrow> nat set" where
  "user_txs rt user_key = {tx. \<exists>s \<in> dm_get (sr_user_index (rc_sessions (rt_core rt))) user_key. session_tx rt s = Some tx}"

definition all_txs :: "Runtime \<Rightarrow> nat set" where
  "all_txs rt = {tx. \<exists>s. session_tx rt s = Some tx}"



lemma distinct_map_filter:
  assumes "distinct xs" and "inj_on f {x. f x \<noteq> None}"
  shows "distinct (List.map_filter f xs)"
proof -
  have "inj_on (\<lambda>x. the (f x)) (set (filter (\<lambda>x. f x \<noteq> None) xs))"
    using assms(2) by (force simp: inj_on_def)
  with assms(1) show ?thesis by (simp add: List.map_filter_def distinct_map comp_def)
qed

lemma session_tx_dom: "{s. session_tx rt s \<noteq> None} = dom (sr_sessions (rc_sessions (rt_core rt)))"
  by (auto simp: session_tx_def get_session_def)

lemma distinct_targets:
  "conns_distinct rt \<Longrightarrow> distinct xs \<Longrightarrow> distinct (List.map_filter (session_tx rt) xs)"
  by (rule distinct_map_filter) (simp_all only: conns_distinct_def session_tx_dom)

lemma fold_map_filter:
  "fold g (List.map_filter f xs) s = fold (\<lambda>x s. case f x of None \<Rightarrow> s | Some y \<Rightarrow> g y s) xs s"
  by (induction xs arbitrary: s) (auto simp: map_filter_simps split: option.splits)

lemma fold_targets:
  assumes core: "\<And>tx m rt. rt_core (send tx m rt) = rt_core rt"
  shows "fold (\<lambda>sid rt. case get_session (rc_sessions (rt_core rt)) sid of
            None \<Rightarrow> rt | Some conn \<Rightarrow> send (conn_tx conn) m rt) sids rt =
    fold (\<lambda>tx. send tx m) (List.map_filter (session_tx rt) sids) rt"
proof (induction sids arbitrary: rt)
  case (Cons sid sids)
  have tx: "session_tx (send tx m rt) = session_tx rt" for tx
    by (rule ext) (simp add: session_tx_def core)
  show ?case
    using Cons.IH [of rt] Cons.IH [of "send tx m rt" for tx]
    by (cases "get_session (rc_sessions (rt_core rt)) sid")
      (simp_all add: map_filter_simps session_tx_def [of rt sid] tx)
qed (simp add: map_filter_simps)

lemma room_targets:
  assumes "dm_ok (ps_room_to_sessions (rc_presence (rt_core rt)))" and "iter_ok it" and "conns_distinct rt"
  shows "set (List.map_filter (session_tx rt) (sessions_in it (rc_presence (rt_core rt)) r)) = room_txs rt r"
    and "distinct (List.map_filter (session_tx rt) (sessions_in it (rc_presence (rt_core rt)) r))"
  using sessions_in_members [OF assms(1,2), of r] distinct_targets [OF assms(3)]
  by (simp_all add: set_map_filter_eq room_txs_def)

lemma lossy_core [simp]: "rt_core (lossy_send tx m rt) = rt_core rt"
  using lossy.frame_send [of tx m rt] by simp

lemma reliable_core [simp]: "rt_core (reliable_step w d tx m rt) = rt_core rt"
  using rel.frame_send [of w d tx m rt] by simp

lemma reliable_completes: "fst (reliable_send w d tx m rt) \<longleftrightarrow> d \<or> has_room rt tx \<or> \<not> is_open rt tx \<or> w tx \<noteq> NoProgress"
  by (auto simp: reliable_defs split: option.splits wait_outcome.splits send_outcome.splits)

lemma publish_reliable_fold:
  "fold (\<lambda>sid (completed, rt). case get_session (rc_sessions (rt_core rt)) sid of
       None \<Rightarrow> (completed, rt)
     | Some conn \<Rightarrow> (let (ok, rt) = reliable_send w d (conn_tx conn) m rt in (completed \<and> ok, rt))) sids (b, rt)
   = (b', rt') \<Longrightarrow>
   rt' = fold (\<lambda>tx. reliable_step w d tx m) (List.map_filter (session_tx rt) sids) rt \<and> (d \<longrightarrow> b' = b)"
proof (induction sids arbitrary: b rt)
  case (Cons sid sids)
  have tx: "session_tx (reliable_step w d tx m rt) = session_tx rt" for tx
    by (rule ext) (simp add: session_tx_def)
  show ?case
  proof (cases "get_session (rc_sessions (rt_core rt)) sid")
    case None
    with Cons show ?thesis by (simp add: map_filter_simps session_tx_def [of rt sid])
  next
    case (Some conn)
    obtain ok rt1 where step: "reliable_send w d (conn_tx conn) m rt = (ok, rt1)" by fastforce
    from Cons.prems Some step
    have "rt' = fold (\<lambda>tx. reliable_step w d tx m) (List.map_filter (session_tx rt1) sids) rt1 \<and> (d \<longrightarrow> b' = (b \<and> ok))"
      by (intro Cons.IH) simp
    with Some step tx [of "conn_tx conn"] reliable_completes [of w d "conn_tx conn" m rt] show ?thesis
      by (auto simp: map_filter_simps session_tx_def [of rt sid])
  qed
qed (simp add: map_filter_simps)

lemma user_targets:
  assumes "dm_ok (sr_user_index (rc_sessions (rt_core rt)))" and "iter_ok it" and "conns_distinct rt"
  shows "set (map conn_tx (get_user_sessions it (rc_sessions (rt_core rt)) u)) = user_txs rt u"
    and "distinct (map conn_tx (get_user_sessions it (rc_sessions (rt_core rt)) u))"
proof -
  let ?S = "dm_get (sr_user_index (rc_sessions (rt_core rt))) u"
  have fin: "finite ?S" using assms(1) by (rule dm_ok_finite)
  have eq: "map conn_tx (get_user_sessions it (rc_sessions (rt_core rt)) u) =
    (if sr_user_index (rc_sessions (rt_core rt)) u = None then [] else List.map_filter (session_tx rt) (it ?S))"
    by (auto simp: get_user_sessions_def session_tx_def [abs_def] List.map_filter_def dm_get_def comp_def
        split: option.splits intro!: map_cong filter_cong)
  then show "set (map conn_tx (get_user_sessions it (rc_sessions (rt_core rt)) u)) = user_txs rt u"
    using iter_ok_set [OF assms(2) fin]
    by (auto simp: user_txs_def set_map_filter_eq dm_get_def)
  show "distinct (map conn_tx (get_user_sessions it (rc_sessions (rt_core rt)) u))"
    using distinct_targets [OF assms(3) iter_ok_distinct [OF assms(2) fin]] by (simp add: eq)
qed

lemma all_targets:
  assumes "finite (dom (sr_sessions (rc_sessions (rt_core rt))))" and "iter_ok it" and "conns_distinct rt"
  shows "set (map (conn_tx \<circ> snd) (all_sessions it (rc_sessions (rt_core rt)))) = all_txs rt"
    and "distinct (map (conn_tx \<circ> snd) (all_sessions it (rc_sessions (rt_core rt))))"
proof -
  let ?D = "dom (sr_sessions (rc_sessions (rt_core rt)))"
  have eq: "map (conn_tx \<circ> snd) (all_sessions it (rc_sessions (rt_core rt))) = List.map_filter (session_tx rt) (it ?D)"
    by (auto simp: all_sessions_def session_tx_def get_session_def List.map_filter_def intro!: map_cong filter_cong)
  show "set (map (conn_tx \<circ> snd) (all_sessions it (rc_sessions (rt_core rt)))) = all_txs rt"
    unfolding eq set_map_filter_eq all_txs_def iter_ok_set [OF assms(2,1)]
    by (auto simp: session_tx_def get_session_def)
  show "distinct (map (conn_tx \<circ> snd) (all_sessions it (rc_sessions (rt_core rt))))"
    using distinct_targets [OF assms(3) iter_ok_distinct [OF assms(2,1)]] by (simp only: eq)
qed

section \<open>Delivery\<close>

lemma lossy_delivers:
  assumes "iter_ok it" and "dm_ok (ps_room_to_sessions (rc_presence (rt_core rt)))" and "conns_distinct rt"
    and "prepare enc out = Inr m" and "publish_room_lossy it enc r out rt = (res, rt')"
  shows "res = Inr () \<and>
    chan_log rt' tx = chan_log rt tx @ (if tx \<in> room_txs rt r \<and> has_room rt tx then [to_ws_message m] else []) \<and>
    rt_drop_count rt' = rt_drop_count rt + of_nat (card {tx \<in> room_txs rt r. \<not> has_room rt tx}) \<and>
    rt_core rt' = rt_core rt \<and> rt_send_fail_count rt' = rt_send_fail_count rt"
proof -
  let ?txs = "List.map_filter (session_tx rt) (sessions_in it (rc_presence (rt_core rt)) r)"
  note tg = room_targets [OF assms(2,1,3), of r]
  have "res = Inr ()" and rt': "rt' = fold (\<lambda>tx. lossy_send tx (to_ws_message m)) ?txs rt"
    using assms(4,5) by (simp_all add: publish_room_lossy_def Let_def fold_targets)
  then show ?thesis
    using lossy.fanout_log [OF tg(2)] lossy.fanout_failures [OF tg(2)] lossy.fanout_frame [of _ ?txs rt] tg(1)
    by simp
qed

lemma reliable_delivers:
  assumes "iter_ok it" and "dm_ok (ps_room_to_sessions (rc_presence (rt_core rt)))" and "conns_distinct rt"
    and "prepare enc out = Inr m" and "out_qos out = Reliable ms" and "ms > 0"
    and "publish_room_reliable it enc w r out rt = (res, rt')"
  shows "res = Some (Inr ()) \<and>
    chan_log rt' tx = chan_log rt tx @ (if tx \<in> room_txs rt r \<and>
        (has_room rt tx \<or> is_open rt tx \<and> (\<exists>n. w tx = Drained n)) then [to_ws_message m] else []) \<and>
    rt_send_fail_count rt' = rt_send_fail_count rt +
      of_nat (card {tx \<in> room_txs rt r. is_open rt tx \<and> \<not> has_room rt tx \<and> w tx = NoProgress}) \<and>
    rt_core rt' = rt_core rt \<and> rt_drop_count rt' = rt_drop_count rt"
proof -
  let ?sids = "sessions_in it (rc_presence (rt_core rt)) r"
  let ?txs = "List.map_filter (session_tx rt) ?sids"
  note tg = room_targets [OF assms(2,1,3), of r]
  obtain b rt1 where fold: "fold (\<lambda>sid (completed, rt). case get_session (rc_sessions (rt_core rt)) sid of
       None \<Rightarrow> (completed, rt)
     | Some conn \<Rightarrow> (let (ok, rt) = reliable_send w True (conn_tx conn) (to_ws_message m) rt in (completed \<and> ok, rt)))
     ?sids (True, rt) = (b, rt1)" by fastforce
  note pf = publish_reliable_fold [OF fold]
  have "res = Some (Inr ())" and rt': "rt' = fold (\<lambda>tx. reliable_step w True tx (to_ws_message m)) ?txs rt"
    using assms(4,5,6,7) fold pf by (auto simp: publish_room_reliable_def Let_def)
  then show ?thesis
    using rel.fanout_log [OF tg(2), of w True] rel.fanout_failures [OF tg(2), of w True]
      rel.fanout_frame [of w True _ ?txs rt] tg(1)
    by (simp add: reliable_accepts_def reliable_counted_def split: wait_outcome.splits)
qed

text \<open>
  A small runtime for examples: two sessions of one user in one room, the first with a free slot, the
  second with a full queue.
\<close>

definition demo_rt :: Runtime where
  "demo_rt =
     \<lparr>rt_core = \<lparr>rc_sessions =
        snd (try_insert ''a'' ''a::u'' ''a::u::2'' \<lparr>conn_tx = 8\<rparr> 0
          (snd (try_insert ''a'' ''a::u'' ''a::u::1'' \<lparr>conn_tx = 7\<rparr> 0 SessionRegistry_new))),
        rc_presence =
          snd (try_join ''a'' ''a::hall'' ''a::u'' ''a::u::2'' TenantLimits_default
            (snd (try_join ''a'' ''a::hall'' ''a::u'' ''a::u::1'' TenantLimits_default Presence_new)))\<rparr>,
      rt_chans = [7 \<mapsto> mpsc_channel 1, 8 \<mapsto> ch_push (MPing []) (mpsc_channel 1)],
      rt_drop_count = 0, rt_send_fail_count = 0\<rparr>"

lemma try_join_default:
  "ps_room_to_sessions (snd (try_join t r u s TenantLimits_default p)) = dm_add (ps_room_to_sessions p) r s"
  by (simp add: try_join_def TenantLimits_default_def Let_def perform_join_tables)

lemma demo_rt_tables:
  "sr_sessions (rc_sessions (rt_core demo_rt)) =
     [''a::u::1'' \<mapsto> \<lparr>se_conn = \<lparr>conn_tx = 7\<rparr>, se_created_seq = 1, se_tenant_id = ''a''\<rparr>,
      ''a::u::2'' \<mapsto> \<lparr>se_conn = \<lparr>conn_tx = 8\<rparr>, se_created_seq = 2, se_tenant_id = ''a''\<rparr>]"
  "sr_user_index (rc_sessions (rt_core demo_rt)) = [''a::u'' \<mapsto> {''a::u::1'', ''a::u::2''}]"
  "ps_room_to_sessions (rc_presence (rt_core demo_rt)) = [''a::hall'' \<mapsto> {''a::u::1'', ''a::u::2''}]"
proof -
  show "sr_sessions (rc_sessions (rt_core demo_rt)) =
     [''a::u::1'' \<mapsto> \<lparr>se_conn = \<lparr>conn_tx = 7\<rparr>, se_created_seq = 1, se_tenant_id = ''a''\<rparr>,
      ''a::u::2'' \<mapsto> \<lparr>se_conn = \<lparr>conn_tx = 8\<rparr>, se_created_seq = 2, se_tenant_id = ''a''\<rparr>]"
    by (simp add: demo_rt_def try_insert_eq SessionRegistry_new_def)
  show "sr_user_index (rc_sessions (rt_core demo_rt)) = [''a::u'' \<mapsto> {''a::u::1'', ''a::u::2''}]"
    by (simp add: demo_rt_def try_insert_eq SessionRegistry_new_def dm_add_def insert_commute)
  show "ps_room_to_sessions (rc_presence (rt_core demo_rt)) = [''a::hall'' \<mapsto> {''a::u::1'', ''a::u::2''}]"
    by (simp add: demo_rt_def try_join_default Presence_new_def dm_add_def insert_commute)
qed

lemma demo_rt_ok [simp]:
  "conns_distinct demo_rt" "dm_ok (ps_room_to_sessions (rc_presence (rt_core demo_rt)))"
  "dm_ok (sr_user_index (rc_sessions (rt_core demo_rt)))"
  "finite (dom (sr_sessions (rc_sessions (rt_core demo_rt))))"
  by (auto simp: conns_distinct_def inj_on_def session_tx_def get_session_def demo_rt_tables dm_ok_def)

lemma demo_session_tx:
  "session_tx demo_rt s = Some tx \<longleftrightarrow> s = ''a::u::1'' \<and> tx = 7 \<or> s = ''a::u::2'' \<and> tx = 8"
  by (auto simp: session_tx_def get_session_def demo_rt_tables)

lemma demo_rt_txs [simp]:
  "room_txs demo_rt ''a::hall'' = {7, 8}" "user_txs demo_rt ''a::u'' = {7, 8}" "all_txs demo_rt = {7, 8}"
  unfolding room_txs_def user_txs_def all_txs_def demo_session_tx demo_rt_tables dm_get_def
  by (simp_all add: ex_disj_distrib conj_disj_distribR set_eq_iff)

lemma demo_rt_chans [simp]: "has_room demo_rt 7" "\<not> has_room demo_rt 8" "is_open demo_rt 8"
proof -
  have c: "rt_chans demo_rt = [7 \<mapsto> mpsc_channel 1, 8 \<mapsto> ch_push (MPing []) (mpsc_channel 1)]"
    by (simp add: demo_rt_def)
  show "has_room demo_rt 7" "\<not> has_room demo_rt 8" "is_open demo_rt 8"
    by (simp_all add: has_room_def is_open_def c mpsc_channel_def ch_full_def ch_push_def)
qed

section \<open>Properties\<close>

text \<open>
  C27: A lossy publication is delivered exactly once to every registered session of the room whose
  queue has room, at the end of its queue, and to nobody else; each session of the room that could
  not take it counts as one drop; tables and the other counter do not change.  The order in which
  the room is walked does not matter.
\<close>

theorem publish_room_lossy_delivers:
  assumes "iter_ok it" and "dm_ok (ps_room_to_sessions (rc_presence (rt_core rt)))" and "conns_distinct rt"
    and "prepare enc out = Inr m" and "publish_room_lossy it enc r out rt = (res, rt')"
  shows "res = Inr () \<and>
    chan_log rt' tx = chan_log rt tx @ (if tx \<in> room_txs rt r \<and> has_room rt tx then [to_ws_message m] else []) \<and>
    rt_drop_count rt' = rt_drop_count rt + of_nat (card {tx \<in> room_txs rt r. \<not> has_room rt tx}) \<and>
    rt_core rt' = rt_core rt \<and> rt_send_fail_count rt' = rt_send_fail_count rt"
  using lossy_delivers [OF assms] .

theorem publish_room_lossy_delivers_witness:
  "chan_log (snd (publish_room_lossy sorted_list_of_set (\<lambda>_. Inl '''') ''a::hall'' \<lparr>out_qos = Lossy, out_payload = Binary [7]\<rparr> demo_rt)) 7
     = chan_log demo_rt 7 @ [MBinary [7]] \<and>
   rt_drop_count (snd (publish_room_lossy sorted_list_of_set (\<lambda>_. Inl '''') ''a::hall'' \<lparr>out_qos = Lossy, out_payload = Binary [7]\<rparr> demo_rt))
     = rt_drop_count demo_rt + 1"
proof -
  let ?out = "\<lparr>out_qos = Lossy, out_payload = Binary [7]\<rparr>"
  have p: "prepare (\<lambda>_. Inl '''') ?out = Inr (PBinary [7])" by (simp add: prepare_def)
  have "{tx \<in> {7, 8}. \<not> has_room demo_rt tx} = {8 :: nat}" by auto
  then show ?thesis
    using publish_room_lossy_delivers [OF iter_ok_sorted _ _ p surjective_pairing, where rt = demo_rt and tx = 7 and r = "''a::hall''"]
    by simp
qed

text \<open>
  C28: A reliable publication with a time limit always returns success.  Every registered session of
  the room whose receiver is there and has a free slot, or takes something out before the limit,
  gets the message exactly once, nobody else does, and exactly the sessions that made no progress
  within the limit are counted as failures: a session whose receiver is gone is not.
\<close>

theorem publish_room_reliable_delivers:
  assumes "iter_ok it" and "dm_ok (ps_room_to_sessions (rc_presence (rt_core rt)))" and "conns_distinct rt"
    and "prepare enc out = Inr m" and "out_qos out = Reliable ms" and "ms > 0"
    and "publish_room_reliable it enc w r out rt = (res, rt')"
  shows "res = Some (Inr ()) \<and>
    chan_log rt' tx = chan_log rt tx @ (if tx \<in> room_txs rt r \<and>
        (has_room rt tx \<or> is_open rt tx \<and> (\<exists>n. w tx = Drained n)) then [to_ws_message m] else []) \<and>
    rt_send_fail_count rt' = rt_send_fail_count rt +
      of_nat (card {tx \<in> room_txs rt r. is_open rt tx \<and> \<not> has_room rt tx \<and> w tx = NoProgress}) \<and>
    rt_core rt' = rt_core rt \<and> rt_drop_count rt' = rt_drop_count rt"
  using reliable_delivers [OF assms] .

theorem publish_room_reliable_delivers_witness:
  "\<exists>rt'. publish_room_reliable sorted_list_of_set (\<lambda>_. Inr ''x'') (\<lambda>_. NoProgress) ''a::hall''
      \<lparr>out_qos = Reliable 1500, out_payload = TextJson JNull\<rparr> demo_rt = (Some (Inr ()), rt') \<and>
    chan_log rt' 7 = chan_log demo_rt 7 @ [MText ''x''] \<and>
    rt_send_fail_count rt' = rt_send_fail_count demo_rt + 1"
proof -
  let ?out = "\<lparr>out_qos = Reliable 1500, out_payload = TextJson JNull\<rparr>"
  obtain res rt' where eq: "publish_room_reliable sorted_list_of_set (\<lambda>_. Inr ''x'') (\<lambda>_. NoProgress) ''a::hall''
      ?out demo_rt = (res, rt')" by fastforce
  have p: "prepare (\<lambda>_. Inr ''x'') ?out = Inr (PText ''x'')" by (simp add: prepare_def)
  have "{tx \<in> {7, 8}. is_open demo_rt tx \<and> \<not> has_room demo_rt tx} = {8 :: nat}" by auto
  then show ?thesis
    using publish_room_reliable_delivers [OF iter_ok_sorted _ _ p _ _ eq, of 1500 7] eq by simp
qed

text \<open>
  Sending to a user reaches every registered session of that user with room in its queue exactly
  once and nobody else, counts one drop for each of the others, and is refused, with no effect, when
  the user has no session.
\<close>

theorem send_to_user_delivers:
  assumes "iter_ok it" and "dm_ok (sr_user_index (rc_sessions (rt_core rt)))" and "conns_distinct rt"
    and "prepare enc out = Inr m" and "send_to_user it enc u out rt = (res, rt')"
  shows "if user_txs rt u = {} then res = Inl (BadRequest ''user not connected'') \<and> rt' = rt
    else res = Inr () \<and>
      chan_log rt' tx = chan_log rt tx @ (if tx \<in> user_txs rt u \<and> has_room rt tx then [to_ws_message m] else []) \<and>
      rt_drop_count rt' = rt_drop_count rt + of_nat (card {tx \<in> user_txs rt u. \<not> has_room rt tx}) \<and>
      rt_core rt' = rt_core rt"
proof -
  let ?cs = "get_user_sessions it (rc_sessions (rt_core rt)) u"
  note tg = user_targets [OF assms(2,1,3), of u]
  have empty: "?cs = [] \<longleftrightarrow> user_txs rt u = {}" using tg(1) by auto
  have f: "fold (\<lambda>c. lossy_send (conn_tx c) (to_ws_message m)) ?cs rt =
    fold (\<lambda>tx. lossy_send tx (to_ws_message m)) (map conn_tx ?cs) rt"
    by (simp add: fold_map comp_def)
  show ?thesis
  proof (cases "user_txs rt u = {}")
    case True
    then show ?thesis using assms(5) empty by (simp add: send_to_user_def)
  next
    case False
    then have "res = Inr ()" and "rt' = fold (\<lambda>tx. lossy_send tx (to_ws_message m)) (map conn_tx ?cs) rt"
      using assms(4,5) empty by (simp_all add: send_to_user_def f)
    then show ?thesis using False lossy.fanout_log [OF tg(2)] lossy.fanout_failures [OF tg(2)]
      lossy.fanout_frame [of _ "map conn_tx ?cs" rt] tg(1) by simp
  qed
qed

theorem send_to_user_delivers_witness:
  "chan_log (snd (send_to_user sorted_list_of_set (\<lambda>_. Inl '''') ''a::u'' \<lparr>out_qos = Lossy, out_payload = Binary [7]\<rparr> demo_rt)) 7
     = chan_log demo_rt 7 @ [MBinary [7]]"
proof -
  let ?out = "\<lparr>out_qos = Lossy, out_payload = Binary [7]\<rparr>"
  have p: "prepare (\<lambda>_. Inl '''') ?out = Inr (PBinary [7])" by (simp add: prepare_def)
  show ?thesis
    using send_to_user_delivers [OF iter_ok_sorted _ _ p surjective_pairing, of demo_rt "''a::u''" 7] by simp
qed

text \<open>
  C29: Draining offers a close frame (code 1001 with the reason) to every registered session: each one
  with room in its queue gets exactly one, each of the others counts as one drop, and no channel
  outside the registry is touched.
\<close>

theorem shutdown_reaches_all:
  assumes "iter_ok it" and "finite (dom (sr_sessions (rc_sessions (rt_core rt))))" and "conns_distinct rt"
    and "rt' = best_effort_shutdown_all it reason rt"
  shows "chan_log rt' tx = chan_log rt tx @
      (if tx \<in> all_txs rt \<and> has_room rt tx then [MClose (Some (1001, reason))] else []) \<and>
    rt_drop_count rt' = rt_drop_count rt + of_nat (card {tx \<in> all_txs rt. \<not> has_room rt tx}) \<and>
    rt_core rt' = rt_core rt"
proof -
  let ?ss = "all_sessions it (rc_sessions (rt_core rt))"
  note tg = all_targets [OF assms(2,1,3)]
  have "rt' = fold (\<lambda>tx. lossy_send tx (MClose (Some (1001, reason)))) (map (conn_tx \<circ> snd) ?ss) rt"
    by (simp add: assms(4) best_effort_shutdown_all_def fold_map comp_def case_prod_unfold)
  then show ?thesis
    using lossy.fanout_log [OF tg(2)] lossy.fanout_failures [OF tg(2)]
      lossy.fanout_frame [of _ "map (conn_tx \<circ> snd) ?ss" rt] tg(1)
    by simp
qed

theorem shutdown_reaches_all_witness:
  "chan_log (best_effort_shutdown_all sorted_list_of_set ''draining'' demo_rt) 7 =
     chan_log demo_rt 7 @ [MClose (Some (1001, ''draining''))]"
  using shutdown_reaches_all [OF iter_ok_sorted, where rt = demo_rt and tx = 7] by simp

end
