(* ===== verification/Services.thy ===== *)
theory Services
  imports Realtime
begin

text \<open>
  Dispatching to the built-in services (\<open>crates/wsprism-gateway/src/dispatch/dispatcher.rs\<close>,
  \<open>services/chat.rs\<close>, \<open>services/echo_binary.rs\<close>).  A service is its identifier and its handler, a
  function from what full channels do meanwhile, the context, the request and the runtime to the
  result and the new runtime, where the result \<open>None\<close> is a handler that never returns.  The \<open>serde_json\<close> parser of the chat request is
  an argument.
\<close>

type_synonym 'req handler = "wait_oracle \<Rightarrow> RealtimeCtx \<Rightarrow> 'req \<Rightarrow> Runtime \<Rightarrow> unit result option \<times> Runtime"

record TextService =
  ts_svc :: string
  ts_handle :: "Envelope handler"

record BinaryService =
  bs_svc_id :: u8
  bs_handle_binary :: "HotFrame handler"

record Dispatcher =
  dp_text :: "string \<rightharpoonup> TextService"
  dp_hot :: "u8 \<rightharpoonup> BinaryService"

definition Dispatcher_new :: Dispatcher where
  "Dispatcher_new = \<lparr>dp_text = Map.empty, dp_hot = Map.empty\<rparr>"

definition register_text :: "TextService \<Rightarrow> Dispatcher \<Rightarrow> Dispatcher" where
  "register_text svc d = d\<lparr>dp_text := (dp_text d)(ts_svc svc \<mapsto> svc)\<rparr>"

definition register_hot :: "BinaryService \<Rightarrow> Dispatcher \<Rightarrow> Dispatcher" where
  "register_hot svc d = d\<lparr>dp_hot := (dp_hot d)(bs_svc_id svc \<mapsto> svc)\<rparr>"

definition registered_text_svcs :: "iter_order \<Rightarrow> Dispatcher \<Rightarrow> string list" where
  "registered_text_svcs it d = it (dom (dp_text d))"

definition registered_hot_svcs :: "(u8 set \<Rightarrow> u8 list) \<Rightarrow> Dispatcher \<Rightarrow> u8 list" where
  "registered_hot_svcs it d = it (dom (dp_hot d))"

definition dispatch_text :: "Dispatcher \<Rightarrow> Envelope handler" where
  "dispatch_text d w ctx env rt =
     (case dp_text d (env_svc env) of
        None \<Rightarrow> (Some (Inl (BadRequest (''unknown svc: '' @ env_svc env))), rt)
      | Some handler \<Rightarrow> ts_handle handler w ctx env rt)"

definition dispatch_hot :: "Dispatcher \<Rightarrow> HotFrame handler" where
  "dispatch_hot d w ctx frame rt =
     (let sid = hf_svc_id frame in
      case dp_hot d sid of
        None \<Rightarrow> (Some (Inl (BadRequest (''unknown hot svc_id: '' @ show_nat (unat sid)))), rt)
      | Some handler \<Rightarrow> bs_handle_binary handler w ctx frame rt)"

section \<open>Chat\<close>

record SendReq =
  req_msg :: string

type_synonym send_req_parser = "string \<Rightarrow> string + SendReq"

definition chat_message :: "string \<Rightarrow> string \<Rightarrow> string \<Rightarrow> Outgoing" where
  "chat_message room user msg =
     \<lparr>out_qos = Reliable 1500,
      out_payload = TextJson (JObj
        [(''v'', JNum 1), (''svc'', JStr ''chat''), (''type'', JStr ''msg''), (''room'', JStr room),
         (''data'', JObj [(''from'', JStr user), (''msg'', JStr msg)])])\<rparr>"

definition chat_handle ::
  "iter_order \<Rightarrow> json_encoder \<Rightarrow> send_req_parser \<Rightarrow> Envelope handler" where
  "chat_handle it enc parse w ctx env rt =
     (if env_msg_type env = ''send'' then
        (case env_room env of
           None \<Rightarrow> (Some (Inl (BadRequest ''chat.send requires room'')), rt)
         | Some room \<Rightarrow>
             (case env_data env of
                None \<Rightarrow> (Some (Inl (BadRequest ''chat.send requires data'')), rt)
              | Some raw \<Rightarrow>
                  (case parse raw of
                     Inl e \<Rightarrow> (Some (Inl (BadRequest (''chat.send invalid data: '' @ e))), rt)
                   | Inr req \<Rightarrow>
                       ctx_publish_room_reliable it enc w ctx room
                         (chat_message room (ctx_user ctx) (req_msg req)) rt)))
      else (Some (Inl (BadRequest ''unknown chat type'')), rt))"

definition ChatService ::
  "iter_order \<Rightarrow> json_encoder \<Rightarrow> send_req_parser \<Rightarrow> TextService" where
  "ChatService it enc parse = \<lparr>ts_svc = ''chat'', ts_handle = chat_handle it enc parse\<rparr>"

section \<open>Binary echo\<close>

definition echo_handle :: "iter_order \<Rightarrow> json_encoder \<Rightarrow> HotFrame handler" where
  "echo_handle it enc w ctx frame rt =
     (let out = \<lparr>out_qos = Lossy, out_payload = Binary (hf_payload frame)\<rparr>;
          (res, rt) = (case ctx_active_room ctx of
                         Some room \<Rightarrow> ctx_publish_room_lossy it enc ctx room out rt
                       | None \<Rightarrow> ctx_send_to_session enc ctx out rt)
      in (Some (and_then res (\<lambda>_. Inr ())), rt))"

definition EchoBinaryService :: "iter_order \<Rightarrow> json_encoder \<Rightarrow> u8 \<Rightarrow> BinaryService" where
  "EchoBinaryService it enc svc_id = \<lparr>bs_svc_id = svc_id, bs_handle_binary = echo_handle it enc\<rparr>"

section \<open>The contract of a service\<close>

text \<open>
  What the transport relies on: a handler returns, and it only talks to channels and counters; the
  session and presence tables are the transport's own.
\<close>

locale service =
  fixes handle :: "'req handler"
  assumes handle_returns: "fst (handle w ctx req rt) \<noteq> None"
    and handle_core: "rt_core (snd (handle w ctx req rt)) = rt_core rt"
begin

lemma handle_result: "\<exists>res rt'. handle w ctx req rt = (Some res, rt') \<and> rt_core rt' = rt_core rt"
  using handle_returns [of w ctx req rt] handle_core [of w ctx req rt]
  by (cases "handle w ctx req rt") auto

end

lemma publish_room_lossy_core [simp]: "rt_core (snd (publish_room_lossy it enc r out rt)) = rt_core rt"
  using lossy.fanout_frame [of _ "List.map_filter (session_tx rt) (sessions_in it (rc_presence (rt_core rt)) r)" rt]
  by (auto simp: publish_room_lossy_def Let_def fold_targets split: sum.splits)

lemma send_to_session_core [simp]: "rt_core (snd (send_to_session enc s out rt)) = rt_core rt"
  by (auto simp: send_to_session_def split: option.splits sum.splits)

lemma publish_room_reliable_total:
  assumes "out_qos out = Reliable ms"  and "ms > 0"
  shows "fst (publish_room_reliable it enc w r out rt) \<noteq> None"
    and "rt_core (snd (publish_room_reliable it enc w r out rt)) = rt_core rt"
proof -
  let ?p = "publish_room_reliable it enc w r out rt"
  let ?sids = "sessions_in it (rc_presence (rt_core rt)) r"
  have "fst ?p \<noteq> None \<and> rt_core (snd ?p) = rt_core rt"
  proof (cases "prepare enc out")
    case (Inl e)
    then show ?thesis by (simp add: publish_room_reliable_def)
  next
    case (Inr m)
    obtain b rt1 where fold: "fold (\<lambda>sid (completed, rt). case get_session (rc_sessions (rt_core rt)) sid of
         None \<Rightarrow> (completed, rt)
       | Some conn \<Rightarrow> (let (ok, rt) = reliable_send w True (conn_tx conn) (to_ws_message m) rt in (completed \<and> ok, rt)))
       ?sids (True, rt) = (b, rt1)" by fastforce
    note pf = publish_reliable_fold [OF fold]
    have "?p = (Some (Inr ()), rt1)"
      using Inr assms fold pf by (simp add: publish_room_reliable_def Let_def)
    with pf rel.fanout_frame [of w True "to_ws_message m" "List.map_filter (session_tx rt) ?sids" rt]
    show ?thesis by simp
  qed
  then show "fst ?p \<noteq> None" and "rt_core (snd ?p) = rt_core rt" by blast+
qed

interpretation chat: service "chat_handle it enc parse" for it enc parse
proof unfold_locales
  fix w ctx env rt
  note tot = publish_room_reliable_total [of "chat_message room user msg" 1500 for room user msg]
  show "fst (chat_handle it enc parse w ctx env rt) \<noteq> None"
    using tot(1) by (auto simp: chat_handle_def ctx_publish_room_reliable_def chat_message_def
        split: option.splits sum.splits)
  show "rt_core (snd (chat_handle it enc parse w ctx env rt)) = rt_core rt"
    using tot(2) by (auto simp: chat_handle_def ctx_publish_room_reliable_def chat_message_def
        split: option.splits sum.splits)
qed

interpretation echo: service "echo_handle it enc" for it enc
  by unfold_locales
    (auto simp: echo_handle_def ctx_publish_room_lossy_def ctx_send_to_session_def Let_def case_prod_unfold
      split: option.splits)

text \<open>A good \<open>chat.send\<close>: it names a room, its data parses, and the message to the room encodes as \<open>body\<close>.\<close>

definition chat_good :: "json_encoder \<Rightarrow> send_req_parser \<Rightarrow> string \<Rightarrow> Envelope \<Rightarrow> string \<Rightarrow> string \<Rightarrow> bool" where
  "chat_good enc parse user env room body \<longleftrightarrow>
     env_msg_type env = ''send'' \<and> env_room env = Some room
   \<and> (\<exists>raw req. env_data env = Some raw \<and> parse raw = Inr req
        \<and> prepare enc (chat_message room user (req_msg req)) = Inr (PText body))"

lemma chat_success:
  assumes "iter_ok it" and "dm_ok (ps_room_to_sessions (rc_presence (rt_core rt)))" and "conns_distinct rt"
    and "chat_handle it enc parse w ctx env rt = (res, rt')" and "chat_good enc parse (ctx_user ctx) env room body"
  shows "res = Some (Inr ()) \<and> (\<forall>tx. chan_log rt' tx = chan_log rt tx @
        (if tx \<in> room_txs rt (key_join (ctx_tenant ctx) room) \<and>
            (has_room rt tx \<or> is_open rt tx \<and> (\<exists>n. w tx = Drained n)) then [MText body] else []))"
proof -
  obtain raw req where c: "env_msg_type env = ''send''" "env_room env = Some room" "env_data env = Some raw"
    "parse raw = Inr req" and p: "prepare enc (chat_message room (ctx_user ctx) (req_msg req)) = Inr (PText body)"
    using assms(5) unfolding chat_good_def by blast
  have "publish_room_reliable it enc w (key_join (ctx_tenant ctx) room)
    (chat_message room (ctx_user ctx) (req_msg req)) rt = (res, rt')"
    using assms(4) c by (simp add: chat_handle_def ctx_publish_room_reliable_def ctx_room_key_def)
  from reliable_delivers [OF assms(1-3) p _ _ this, of 1500] show ?thesis by (simp add: chat_message_def)
qed

lemma chat_failure:
  assumes "chat_handle it enc parse w ctx env rt = (res, rt')"
    and "\<not> (\<exists>room body. chat_good enc parse (ctx_user ctx) env room body)"
  shows "\<exists>e. res = Some (Inl e) \<and> client_code e = CC_BadRequest \<and> rt' = rt"
  using assms
  by (auto simp: chat_good_def chat_handle_def ctx_publish_room_reliable_def publish_room_reliable_def prepare_def
      chat_message_def split: if_splits option.splits sum.splits)

lemma echo_outcome:
  assumes "iter_ok it" and "dm_ok (ps_room_to_sessions (rc_presence (rt_core rt)))" and "conns_distinct rt"
    and "echo_handle it enc w ctx frame rt = (res, rt')"
    and "targets = (case ctx_active_room ctx of
           Some room \<Rightarrow> room_txs rt (key_join (ctx_tenant ctx) room)
         | None \<Rightarrow> {tx. session_tx rt (ctx_session_key ctx) = Some tx})"
  shows "chan_log rt' tx = chan_log rt tx @
      (if tx \<in> targets \<and> has_room rt tx then [MBinary (hf_payload frame)] else [])
    \<and> res = (if ctx_active_room ctx = None \<and> targets = {} then Some (Inl (BadRequest ''session not connected''))
             else Some (Inr ()))"
proof -
  let ?out = "\<lparr>out_qos = Lossy, out_payload = Binary (hf_payload frame)\<rparr>"
  have p: "prepare enc ?out = Inr (PBinary (hf_payload frame))" by (simp add: prepare_def)
  show ?thesis
  proof (cases "ctx_active_room ctx")
    case None
    then show ?thesis using assms(4,5) p lossy.log_send
      by (auto simp: echo_handle_def ctx_send_to_session_def send_to_session_def session_tx_def split: option.splits)
  next
    case (Some room)
    obtain r1 rt1 where pub: "publish_room_lossy it enc (key_join (ctx_tenant ctx) room) ?out rt = (r1, rt1)"
      by fastforce
    with assms(4) Some have res: "res = Some (and_then r1 (\<lambda>_. Inr ()))" and "rt1 = rt'"
      by (simp_all add: echo_handle_def ctx_publish_room_lossy_def ctx_room_key_def)
    with pub have pub: "publish_room_lossy it enc (key_join (ctx_tenant ctx) room) ?out rt = (r1, rt')" by simp
    show ?thesis using lossy_delivers [OF assms(1-3) p pub, of tx] res Some assms(5) by simp
  qed
qed

section \<open>Properties\<close>

text \<open>
  C30: \<open>chat.send\<close>, completely.  When the envelope names a room and carries data that parses, and the
  message encodes, the handler returns success and every session of that room of the sender's own
  tenant that can take it before 1.5 seconds pass gets the encoded message exactly once, with the
  sender's user id in it, and no other channel changes; whenever one of these conditions fails the handler
  returns a BAD_REQUEST error and changes nothing.
\<close>

theorem chat_handle_outcome:
  assumes "iter_ok it" and "dm_ok (ps_room_to_sessions (rc_presence (rt_core rt)))" and "conns_distinct rt"
    and "chat_handle it enc parse w ctx env rt = (res, rt')"
  shows "(\<forall>room body. chat_good enc parse (ctx_user ctx) env room body \<longrightarrow>
      res = Some (Inr ()) \<and>
      (\<forall>tx. chan_log rt' tx = chan_log rt tx @
        (if tx \<in> room_txs rt (key_join (ctx_tenant ctx) room) \<and>
            (has_room rt tx \<or> is_open rt tx \<and> (\<exists>n. w tx = Drained n)) then [MText body] else [])))
    \<and> ((\<nexists>room body. chat_good enc parse (ctx_user ctx) env room body) \<longrightarrow>
        (\<exists>e. res = Some (Inl e) \<and> client_code e = CC_BadRequest \<and> rt' = rt))"
  using chat_success [OF assms] chat_failure [OF assms(4)] by blast

theorem chat_handle_outcome_witness:
  "fst (chat_handle sorted_list_of_set (\<lambda>_. Inr ''hi'') (\<lambda>d. Inr \<lparr>req_msg = d\<rparr>) (\<lambda>_. Drained 1)
     (RealtimeCtx_new ''a'' ''u'' ''1'' ''t'' None)
     \<lparr>env_v = 1, env_svc = ''chat'', env_msg_type = ''send'', env_flags = 0, env_seq = None,
      env_room = Some ''hall'', env_data = Some ''m''\<rparr> demo_rt) = Some (Inr ())
   \<and> chan_log (snd (chat_handle sorted_list_of_set (\<lambda>_. Inr ''hi'') (\<lambda>d. Inr \<lparr>req_msg = d\<rparr>) (\<lambda>_. Drained 1)
     (RealtimeCtx_new ''a'' ''u'' ''1'' ''t'' None)
     \<lparr>env_v = 1, env_svc = ''chat'', env_msg_type = ''send'', env_flags = 0, env_seq = None,
      env_room = Some ''hall'', env_data = Some ''m''\<rparr> demo_rt)) 8 = chan_log demo_rt 8 @ [MText ''hi'']"
proof -
  let ?ctx = "RealtimeCtx_new ''a'' ''u'' ''1'' ''t'' None"
  let ?env = "\<lparr>env_v = 1, env_svc = ''chat'', env_msg_type = ''send'', env_flags = 0, env_seq = None,
      env_room = Some ''hall'', env_data = Some ''m''\<rparr>"
  have good: "chat_good (\<lambda>_. Inr ''hi'') (\<lambda>d. Inr \<lparr>req_msg = d\<rparr>) (ctx_user ?ctx) ?env ''hall'' ''hi''"
    by (simp add: chat_good_def prepare_def chat_message_def)
  show ?thesis
    using chat_handle_outcome [OF iter_ok_sorted _ _ surjective_pairing, where rt = demo_rt
        and enc = "\<lambda>_. Inr ''hi''" and parse = "\<lambda>d. Inr \<lparr>req_msg = d\<rparr>" and w = "\<lambda>_. Drained 1"
        and ctx = ?ctx and env = ?env] good
    by (auto simp: RealtimeCtx_new_def key_join_def)
qed

text \<open>
  C31: The binary echo.  With an active room the payload goes, unchanged and exactly once, to every
  session of that room of the sender's tenant with room in its queue; without one it goes to the
  sender's own session alone; the handler fails only when that session is not registered.
\<close>

theorem echo_handle_outcome:
  assumes "iter_ok it" and "dm_ok (ps_room_to_sessions (rc_presence (rt_core rt)))" and "conns_distinct rt"
    and "echo_handle it enc w ctx frame rt = (res, rt')"
    and "targets = (case ctx_active_room ctx of
           Some room \<Rightarrow> room_txs rt (key_join (ctx_tenant ctx) room)
         | None \<Rightarrow> {tx. session_tx rt (ctx_session_key ctx) = Some tx})"
  shows "chan_log rt' tx = chan_log rt tx @
      (if tx \<in> targets \<and> has_room rt tx then [MBinary (hf_payload frame)] else [])
    \<and> res = (if ctx_active_room ctx = None \<and> targets = {} then Some (Inl (BadRequest ''session not connected''))
             else Some (Inr ()))"
  using echo_outcome [OF assms] .

theorem echo_handle_outcome_witness:
  "chan_log (snd (echo_handle sorted_list_of_set (\<lambda>_. Inl '''') (\<lambda>_. NoProgress)
      (RealtimeCtx_new ''a'' ''u'' ''1'' ''t'' (Some ''hall''))
      \<lparr>hf_v = 1, hf_svc_id = 1, hf_opcode = 1, hf_flags = 0, hf_seq = None, hf_payload = [5]\<rparr> demo_rt)) 7
   = chan_log demo_rt 7 @ [MBinary [5]]"
  using echo_handle_outcome [OF iter_ok_sorted _ _ surjective_pairing refl, where rt = demo_rt and tx = 7
      and ctx = "RealtimeCtx_new ''a'' ''u'' ''1'' ''t'' (Some ''hall'')"
      and frame = "\<lparr>hf_v = 1, hf_svc_id = 1, hf_opcode = 1, hf_flags = 0, hf_seq = None, hf_payload = [5]\<rparr>"]
  by (simp add: RealtimeCtx_new_def key_join_def)

end
