(* ===== verification/Rate_Limiter.thy ===== *)
theory Rate_Limiter
  imports Ws_Prelude Complex_Main
begin

text \<open>
  The contract that every token-based limiter of the gateway offers its clients, and what follows
  from it.  A limiter takes a request at an instant and admits it or not; its \<open>credit\<close> at an instant
  is what it could still admit, grows no faster than \<open>rate\<close> tokens per second and pays one token for
  every admission.  From these laws alone, the number of admissions in a window of time is bounded.
\<close>

type_synonym ('e, 's) limiter_step = "'e \<Rightarrow> instant \<Rightarrow> 's \<Rightarrow> bool \<times> 's"

fun admitted :: "('e, 's) limiter_step \<Rightarrow> 's \<Rightarrow> ('e \<times> instant) list \<Rightarrow> nat" where
  "admitted step s [] = 0"
| "admitted step s ((e, t) # es) =
     (if fst (step e t s) then 1 else 0) + admitted step (snd (step e t s)) es"

fun run_limiter :: "('e, 's) limiter_step \<Rightarrow> 's \<Rightarrow> ('e \<times> instant) list \<Rightarrow> 's" where
  "run_limiter step s [] = s"
| "run_limiter step s ((e, t) # es) = run_limiter step (snd (step e t s)) es"

text \<open>The requests of a window come at instants that never go back and stay within it.\<close>

fun in_window :: "instant \<Rightarrow> instant \<Rightarrow> ('e \<times> instant) list \<Rightarrow> bool" where
  "in_window t0 t1 [] = (t0 \<le> t1)"
| "in_window t0 t1 ((e, t) # es) = (t0 \<le> t \<and> in_window t t1 es)"

lemma in_window_le: "in_window t0 t1 es \<Longrightarrow> t0 \<le> t1"
  by (induction es arbitrary: t0) (auto intro: le_trans)

abbreviation seconds :: "instant \<Rightarrow> real" where
  "seconds n \<equiv> real n / 1000000000"

lemma unsigned_real_nonneg [simp]: "0 \<le> (unsigned (w :: 'a::len word) :: real)"
  by (metis of_nat_0_le_iff of_nat_unat)

locale rate_limited =
  fixes step :: "('e, 's) limiter_step"
    and credit :: "instant \<Rightarrow> 's \<Rightarrow> real"
    and rate :: "'s \<Rightarrow> real"
    and inv :: "'s \<Rightarrow> bool"
  assumes credit_nonneg: "inv s \<Longrightarrow> 0 \<le> credit t s"
    and credit_pays: "inv s \<Longrightarrow>
      credit t (snd (step e t s)) + (if fst (step e t s) then 1 else 0) \<le> credit t s"
    and credit_grows: "inv s \<Longrightarrow> t \<le> t' \<Longrightarrow> credit t' s \<le> credit t s + rate s * seconds (t' - t)"
    and rate_nonneg: "inv s \<Longrightarrow> 0 \<le> rate s"
    and rate_step: "inv s \<Longrightarrow> rate (snd (step e t s)) = rate s"
    and inv_step: "inv s \<Longrightarrow> inv (snd (step e t s))"
begin

lemma inv_run: "inv s \<Longrightarrow> inv (run_limiter step s es)"
  by (induction es arbitrary: s) (auto simp: inv_step)

lemma rate_run: "inv s \<Longrightarrow> rate (run_limiter step s es) = rate s"
  by (induction es arbitrary: s) (auto simp: inv_step rate_step)

lemma admitted_credit:
  assumes "inv s" and "in_window t0 t1 es"
  shows "real (admitted step s es) \<le> credit t0 s + rate s * seconds (t1 - t0)"
  using assms
proof (induction es arbitrary: s t0)
  case Nil
  then show ?case by (simp add: credit_nonneg rate_nonneg)
next
  case (Cons et es)
  obtain e t where et: "et = (e, t)" by (cases et)
  let ?s = "snd (step e t s)" and ?b = "(if fst (step e t s) then 1 else 0) :: real"
  from Cons.prems et have le: "t0 \<le> t" and win: "in_window t t1 es" by auto
  then have split: "seconds (t1 - t0) = seconds (t - t0) + seconds (t1 - t)"
    using in_window_le [OF win] by (simp add: field_simps)
  have "real (admitted step ?s es) \<le> credit t ?s + rate ?s * seconds (t1 - t)"
    using Cons.IH win Cons.prems(1) inv_step by blast
  moreover have "credit t ?s + ?b \<le> credit t s"
    using credit_pays Cons.prems(1) by blast
  moreover have "credit t s \<le> credit t0 s + rate s * seconds (t - t0)"
    using credit_grows Cons.prems(1) le by blast
  moreover have "real (admitted step s (et # es)) = ?b + real (admitted step ?s es)"
    using et by simp
  ultimately show ?case
    by (simp only: rate_step [OF Cons.prems(1)] split distrib_left)
qed

end

end
