(* ===== verification/Allowlist.thy ===== *)
theory Allowlist
  imports Ws_Error
begin

text \<open>
  Allowlist compilation and matching (\<open>crates/wsprism-gateway/src/policy/allowlist.rs\<close>), with the
  two string operations of the standard library that it uses: \<open>split_once\<close> and \<open>parse::<u8>\<close>.
\<close>

section \<open>String operations\<close>

fun split_once :: "char \<Rightarrow> string \<Rightarrow> (string \<times> string) option" where
  "split_once c [] = None"
| "split_once c (x # xs) =
     (if x = c then Some ([], xs) else map_option (\<lambda>(a, b). (x # a, b)) (split_once c xs))"

definition digit_val :: "char \<Rightarrow> nat option" where
  "digit_val c = (let n = of_char c :: nat in if 48 \<le> n \<and> n \<le> 57 then Some (n - 48) else None)"

text \<open>
  \<open>u8::from_str\<close>: the empty string, a lone sign and a non-digit are errors, one leading plus sign
  is accepted, and \<open>checked_mul\<close> then \<open>checked_add\<close> fail at the first digit that leaves the type.
\<close>

fun parse_u8_digits :: "nat \<Rightarrow> string \<Rightarrow> nat option" where
  "parse_u8_digits acc [] = Some acc"
| "parse_u8_digits acc (c # cs) =
     (case digit_val c of
        None \<Rightarrow> None
      | Some d \<Rightarrow>
          if 255 < acc * 10 then None
          else if 255 < acc * 10 + d then None
          else parse_u8_digits (acc * 10 + d) cs)"

definition parse_u8 :: "string \<Rightarrow> u8 option" where
  "parse_u8 s =
     (case s of
        [] \<Rightarrow> None
      | c # cs \<Rightarrow>
          if cs = [] \<and> (c = CHR ''+'' \<or> c = CHR ''-'') then None
          else map_option of_nat (parse_u8_digits 0 (if c = CHR ''+'' then cs else s)))"

section \<open>Rules\<close>

record ExtRule =
  er_svc :: string
  er_msg_type :: "string option"

record HotRule =
  hr_svc_id :: u8
  hr_opcode :: "u8 option"

text \<open>One iteration of each compile loop, and the loops: the first bad entry aborts.\<close>

definition compile_ext_rule :: "string \<Rightarrow> ExtRule result" where
  "compile_ext_rule s =
     (case split_once CHR '':'' s of
        None \<Rightarrow> Inl (BadRequest (''invalid ext_allowlist entry: '' @ s @ '' (expected svc:type)''))
      | Some (svc, ty) \<Rightarrow>
          Inr \<lparr>er_svc = svc, er_msg_type = (if ty = ''*'' then None else Some ty)\<rparr>)"

fun compile_ext_rules :: "string list \<Rightarrow> ExtRule list result" where
  "compile_ext_rules [] = Inr []"
| "compile_ext_rules (s # raw) =
     and_then (compile_ext_rule s) (\<lambda>r. and_then (compile_ext_rules raw) (\<lambda>out. Inr (r # out)))"

definition compile_hot_rule :: "string \<Rightarrow> HotRule result" where
  "compile_hot_rule s =
     (case split_once CHR '':'' s of
        None \<Rightarrow> Inl (BadRequest (''invalid hot_allowlist entry: '' @ s @ '' (expected svc_id:opcode)''))
      | Some (svc_id_s, op_s) \<Rightarrow>
          (case parse_u8 svc_id_s of
             None \<Rightarrow> Inl (BadRequest (''invalid hot_allowlist svc_id: '' @ svc_id_s))
           | Some svc_id \<Rightarrow>
               if op_s = ''*'' then Inr \<lparr>hr_svc_id = svc_id, hr_opcode = None\<rparr>
               else
                 (case parse_u8 op_s of
                    None \<Rightarrow> Inl (BadRequest (''invalid hot_allowlist opcode: '' @ op_s))
                  | Some op \<Rightarrow> Inr \<lparr>hr_svc_id = svc_id, hr_opcode = Some op\<rparr>)))"

fun compile_hot_rules :: "string list \<Rightarrow> HotRule list result" where
  "compile_hot_rules [] = Inr []"
| "compile_hot_rules (s # raw) =
     and_then (compile_hot_rule s) (\<lambda>r. and_then (compile_hot_rules raw) (\<lambda>out. Inr (r # out)))"

definition is_ext_allowed :: "ExtRule list \<Rightarrow> string \<Rightarrow> string \<Rightarrow> bool" where
  "is_ext_allowed rules svc msg_type =
     list_ex (\<lambda>r. if er_svc r \<noteq> svc then False
                  else (case er_msg_type r of None \<Rightarrow> True | Some t \<Rightarrow> t = msg_type)) rules"

definition is_hot_allowed :: "HotRule list \<Rightarrow> u8 \<Rightarrow> u8 \<Rightarrow> bool" where
  "is_hot_allowed rules svc_id opcode =
     list_ex (\<lambda>r. if hr_svc_id r \<noteq> svc_id then False
                  else (case hr_opcode r of None \<Rightarrow> True | Some op \<Rightarrow> op = opcode)) rules"

section \<open>Lemmas\<close>

lemma split_once_Some:
  "split_once c s = Some (a, b) \<longleftrightarrow> s = a @ c # b \<and> c \<notin> set a"
proof (induction s arbitrary: a)
  case (Cons x s)
  show ?case by (cases a) (auto simp: Cons.IH)
qed auto

lemma split_once_None: "split_once c s = None \<longleftrightarrow> c \<notin> set s"
  by (induction s) auto

lemma compile_ext_rules_Inr_iff:
  "compile_ext_rules raw = Inr rules \<longleftrightarrow> list_all2 (\<lambda>s r. compile_ext_rule s = Inr r) raw rules"
  by (induction raw arbitrary: rules) (auto simp: and_then_eq_Inr list_all2_Cons1)

lemma compile_hot_rules_Inr_iff:
  "compile_hot_rules raw = Inr rules \<longleftrightarrow> list_all2 (\<lambda>s r. compile_hot_rule s = Inr r) raw rules"
  by (induction raw arbitrary: rules) (auto simp: and_then_eq_Inr list_all2_Cons1)

lemma compile_ext_rules_Inl:
  "compile_ext_rules raw = Inl e \<Longrightarrow>
     \<exists>s \<in> set raw. CHR '':'' \<notin> set s \<and>
       e = BadRequest (''invalid ext_allowlist entry: '' @ s @ '' (expected svc:type)'')"
  by (induction raw)
    (auto simp: and_then_eq_Inl and_then_eq_Inr compile_ext_rule_def split_once_None
      split: option.splits)

lemma list_all2_bex_left:
  "list_all2 R xs ys \<Longrightarrow> (\<And>x y. R x y \<Longrightarrow> P y \<longleftrightarrow> Q x) \<Longrightarrow> list_ex P ys \<longleftrightarrow> (\<exists>x \<in> set xs. Q x)"
  by (induction rule: list_all2_induct) auto

lemma compile_ext_rule_Inr:
  "compile_ext_rule s = Inr r \<longleftrightarrow>
     (\<exists>svc ty. split_once CHR '':'' s = Some (svc, ty) \<and>
        r = \<lparr>er_svc = svc, er_msg_type = (if ty = ''*'' then None else Some ty)\<rparr>)"
  by (auto simp: compile_ext_rule_def split: option.splits)

lemma compile_hot_rule_Inr:
  "compile_hot_rule s = Inr r \<longleftrightarrow>
     (\<exists>a b sid. split_once CHR '':'' s = Some (a, b) \<and> parse_u8 a = Some sid \<and>
        (b = ''*'' \<and> r = \<lparr>hr_svc_id = sid, hr_opcode = None\<rparr>
         \<or> b \<noteq> ''*'' \<and> (\<exists>op. parse_u8 b = Some op \<and> r = \<lparr>hr_svc_id = sid, hr_opcode = Some op\<rparr>)))"
proof (cases "split_once CHR '':'' s")
  case (Some ab)
  then show ?thesis by (cases ab) (auto simp: compile_hot_rule_def split: option.splits)
qed (simp add: compile_hot_rule_def)

text \<open>The decimal value of a digit string, without a bound.\<close>

fun dec_value :: "nat \<Rightarrow> string \<Rightarrow> nat option" where
  "dec_value acc [] = Some acc"
| "dec_value acc (c # cs) =
     (case digit_val c of None \<Rightarrow> None | Some d \<Rightarrow> dec_value (acc * 10 + d) cs)"

lemma dec_value_ge: "dec_value acc s = Some n \<Longrightarrow> acc \<le> n"
proof (induction acc s rule: dec_value.induct)
  case (2 acc c cs)
  then show ?case by (fastforce split: option.splits)
qed simp

lemma parse_u8_digits_iff:
  "parse_u8_digits acc s = Some n \<longleftrightarrow> dec_value acc s = Some n \<and> (s \<noteq> [] \<longrightarrow> n \<le> 255)"
proof (induction acc s arbitrary: n rule: parse_u8_digits.induct)
  case (2 acc c cs)
  show ?case
  proof (cases "digit_val c")
    case (Some d)
    show ?thesis
    proof (cases "acc * 10 + d \<le> 255")
      case True
      with Some have step: "parse_u8_digits acc (c # cs) = parse_u8_digits (acc * 10 + d) cs"
        by simp
      from True Some have "cs = [] \<Longrightarrow> dec_value (acc * 10 + d) cs = Some n \<Longrightarrow> n \<le> 255" by simp
      with step Some True 2 show ?thesis by (cases "cs = []") auto
    next
      case False
      with Some show ?thesis using dec_value_ge [of "acc * 10 + d" cs n] by auto
    qed
  qed simp
qed simp

lemma dec_value_sign: "c = CHR ''+'' \<or> c = CHR ''-'' \<Longrightarrow> dec_value acc (c # cs) = None"
  by (auto simp: digit_val_def)

lemma parse_u8_Some:
  "parse_u8 s = Some w \<longleftrightarrow>
     (\<exists>ds n. (s = ds \<or> s = CHR ''+'' # ds) \<and> ds \<noteq> [] \<and> dec_value 0 ds = Some n \<and> n \<le> 255
        \<and> w = of_nat n)"
proof (cases s)
  case Nil
  then show ?thesis by (auto simp: parse_u8_def)
next
  case (Cons c cs)
  show ?thesis
  proof (cases "c = CHR ''+''")
    case True
    with Cons have "parse_u8 s = (if cs = [] then None else map_option of_nat (parse_u8_digits 0 cs))"
      by (simp add: parse_u8_def)
    moreover from Cons True have "dec_value 0 s = None"
      using dec_value_sign [of c 0 cs] by simp
    ultimately show ?thesis using Cons True
      by (cases "cs = []") (auto simp: parse_u8_digits_iff simp del: dec_value.simps parse_u8_digits.simps)
  next
    case False
    with Cons have "parse_u8 s = map_option of_nat (parse_u8_digits 0 s)"
      by (auto simp: parse_u8_def digit_val_def)
    with Cons False show ?thesis
      by (auto simp: parse_u8_digits_iff simp del: dec_value.simps parse_u8_digits.simps)
  qed
qed

lemma parse_u8_star [simp]: "parse_u8 ''*'' = None"
  by (simp add: parse_u8_def digit_val_def)

lemma ext_allowed_iff:
  assumes "compile_ext_rules raw = Inr rules"
  shows "is_ext_allowed rules svc ty \<longleftrightarrow>
     CHR '':'' \<notin> set svc \<and> (svc @ '':*'' \<in> set raw \<or> svc @ '':'' @ ty \<in> set raw)"
proof -
  from assms have "list_all2 (\<lambda>s r. compile_ext_rule s = Inr r) raw rules"
    by (simp add: compile_ext_rules_Inr_iff)
  then have "is_ext_allowed rules svc ty \<longleftrightarrow>
      (\<exists>s \<in> set raw. split_once CHR '':'' s = Some (svc, ''*'') \<or> split_once CHR '':'' s = Some (svc, ty))"
    unfolding is_ext_allowed_def
    by (rule list_all2_bex_left) (auto simp: compile_ext_rule_Inr split: if_splits)
  then show ?thesis by (auto simp: split_once_Some)
qed

lemma hot_allowed_iff:
  assumes "compile_hot_rules raw = Inr rules"
  shows "is_hot_allowed rules sid op \<longleftrightarrow>
    (\<exists>a b. a @ CHR '':'' # b \<in> set raw \<and> CHR '':'' \<notin> set a \<and> parse_u8 a = Some sid
        \<and> (b = ''*'' \<or> parse_u8 b = Some op))"
proof -
  from assms have "list_all2 (\<lambda>s r. compile_hot_rule s = Inr r) raw rules"
    by (simp add: compile_hot_rules_Inr_iff)
  then have "is_hot_allowed rules sid op \<longleftrightarrow>
    (\<exists>s \<in> set raw. \<exists>a b. split_once CHR '':'' s = Some (a, b) \<and> parse_u8 a = Some sid
        \<and> (b = ''*'' \<or> parse_u8 b = Some op))"
    unfolding is_hot_allowed_def
    by (rule list_all2_bex_left) (auto simp: compile_hot_rule_Inr)
  then show ?thesis by (auto simp: split_once_Some)
qed

section \<open>Properties\<close>

text \<open>
  Compilation of the Ext Lane allowlist succeeds exactly when every entry has a colon, and the
  compiled rules admit a service and type exactly when the configuration lists that pair or the
  service with the wildcard: nothing that is not listed passes.
\<close>

theorem ext_allowlist_semantics:
  "((\<exists>rules. compile_ext_rules raw = Inr rules) \<longleftrightarrow> (\<forall>s. s \<in> set raw \<longrightarrow> CHR '':'' \<in> set s))
   \<and> (compile_ext_rules raw = Inr rules \<longrightarrow>
        (is_ext_allowed rules svc ty \<longleftrightarrow>
           CHR '':'' \<notin> set svc \<and> (svc @ '':*'' \<in> set raw \<or> svc @ '':'' @ ty \<in> set raw)))"
proof (intro conjI impI)
  have "(\<exists>r. compile_ext_rule s = Inr r) \<longleftrightarrow> CHR '':'' \<in> set s" for s
    using split_once_None [of "CHR '':''" s] by (auto simp: compile_ext_rule_def split: option.splits)
  then show "(\<exists>rules. compile_ext_rules raw = Inr rules) \<longleftrightarrow> (\<forall>s. s \<in> set raw \<longrightarrow> CHR '':'' \<in> set s)"
    by (induction raw) (auto simp: and_then_eq_Inr)
qed (rule ext_allowed_iff)

theorem ext_allowlist_semantics_witness:
  "(\<exists>rules. compile_ext_rules [''room:join'', ''chat:*''] = Inr rules
      \<and> is_ext_allowed rules ''chat'' ''send'' \<and> \<not> is_ext_allowed rules ''room'' ''leave'')"
proof -
  let ?raw = "[''room:join'', ''chat:*'']"
  obtain rules where rules: "compile_ext_rules ?raw = Inr rules"
    by (simp add: compile_ext_rule_def)
  then have "is_ext_allowed rules ''chat'' ''send''" "\<not> is_ext_allowed rules ''room'' ''leave''"
    using ext_allowlist_semantics [of ?raw rules "''chat''" "''send''"]
      ext_allowlist_semantics [of ?raw rules "''room''" "''leave''"] by auto
  with rules show ?thesis by blast
qed

text \<open>
  The compiled Hot Lane rules admit a service id and opcode exactly when some configured entry
  \<open>id:opcode\<close> or \<open>id:*\<close> parses to them, where a number parses exactly when it is a non-empty
  decimal string, with at most one leading plus sign, whose value is at most 255.
\<close>

theorem hot_allowlist_semantics:
  assumes "compile_hot_rules raw = Inr rules"
  shows "(is_hot_allowed rules sid op \<longleftrightarrow>
      (\<exists>a b. a @ CHR '':'' # b \<in> set raw \<and> CHR '':'' \<notin> set a \<and> parse_u8 a = Some sid
        \<and> (b = ''*'' \<or> parse_u8 b = Some op)))
    \<and> (parse_u8 t = Some w \<longleftrightarrow>
      (\<exists>ds n. (t = ds \<or> t = CHR ''+'' # ds) \<and> ds \<noteq> [] \<and> dec_value 0 ds = Some n \<and> n \<le> 255
        \<and> w = of_nat n))"
  by (intro conjI hot_allowed_iff [OF assms] parse_u8_Some)

theorem hot_allowlist_semantics_witness:
  "\<exists>rules. compile_hot_rules [''1:*'', ''2:10''] = Inr rules
     \<and> is_hot_allowed rules 1 77 \<and> is_hot_allowed rules 2 10"
proof -
  let ?raw = "[''1:*'', ''2:10'']"
  have p: "parse_u8 ''1'' = Some 1" "parse_u8 ''2'' = Some 2" "parse_u8 ''10'' = Some 10"
    by (simp_all add: parse_u8_def digit_val_def)
  then obtain rules where rules: "compile_hot_rules ?raw = Inr rules"
    by (simp add: compile_hot_rule_def)
  have "\<exists>a b. a @ CHR '':'' # b \<in> set ?raw \<and> CHR '':'' \<notin> set a \<and> parse_u8 a = Some 1
      \<and> (b = ''*'' \<or> parse_u8 b = Some 77)"
    by (rule exI [of _ "''1''"], rule exI [of _ "''*''"]) (simp add: p)
  then have "is_hot_allowed rules 1 77"
    by (simp only: hot_allowlist_semantics [OF rules, THEN conjunct1])
  moreover have "\<exists>a b. a @ CHR '':'' # b \<in> set ?raw \<and> CHR '':'' \<notin> set a \<and> parse_u8 a = Some 2
      \<and> (b = ''*'' \<or> parse_u8 b = Some 10)"
    by (rule exI [of _ "''2''"], rule exI [of _ "''10''"]) (simp add: p)
  then have "is_hot_allowed rules 2 10"
    by (simp only: hot_allowlist_semantics [OF rules, THEN conjunct1])
  ultimately show ?thesis using rules by blast
qed

end
