(* ===== verification/Policy_Engine.thy ===== *)
theory Policy_Engine
  imports Rate_Limiter Allowlist Config_Schema
begin

text \<open>
  The compiled policy of a tenant (\<open>crates/wsprism-gateway/src/policy/engine.rs\<close>): token buckets,
  the shared tenant limiter behind its mutex, the per-connection limiter, and the decisions on
  frame size, rate and allowlist for both lanes.  The clock reading of \<open>Instant::now()\<close> is an
  argument; interior mutability is state passing.
\<close>

section \<open>Token bucket\<close>

record TokenBucket =
  tb_rps :: u32
  tb_capacity :: u32
  tb_tokens :: u32
  tb_last :: instant

definition TokenBucket_new :: "u32 \<Rightarrow> u32 \<Rightarrow> instant \<Rightarrow> TokenBucket" where
  "TokenBucket_new rps burst now =
     (let rps = max rps 1; capacity = max burst 1
      in \<lparr>tb_rps = rps, tb_capacity = capacity, tb_tokens = capacity, tb_last = now\<rparr>)"

text \<open>
  \<open>duration_since\<close> saturates at zero, \<open>as_millis() as u64\<close> and the final \<open>as u32\<close> truncate,
  the products and sums wrap.
\<close>

definition tokens_to_add :: "instant \<Rightarrow> u32 \<Rightarrow> u32" where
  "tokens_to_add elapsed rps =
     ucast ((of_nat (elapsed div 1000000) :: u64) * ucast rps div 1000 :: u64)"

definition refill :: "instant \<Rightarrow> TokenBucket \<Rightarrow> TokenBucket" where
  "refill now b =
     (let elapsed = now - tb_last b in
      if elapsed < 50 * 1000000 then b
      else
        (let add = tokens_to_add elapsed (tb_rps b) in
         if add > 0 then b\<lparr>tb_tokens := min (tb_tokens b + add) (tb_capacity b), tb_last := now\<rparr>
         else b))"

definition TokenBucket_allow :: "instant \<Rightarrow> TokenBucket \<Rightarrow> bool \<times> TokenBucket" where
  "TokenBucket_allow now b =
     (let b = refill now b in
      if tb_tokens b = 0 then (False, b)
      else (True, b\<lparr>tb_tokens := tb_tokens b - 1\<rparr>))"

text \<open>The two limiters around it.  A poisoned mutex denies.\<close>

record ConnRateLimiter =
  cl_bucket :: TokenBucket

definition ConnRateLimiter_new :: "u32 \<Rightarrow> u32 \<Rightarrow> instant \<Rightarrow> ConnRateLimiter" where
  "ConnRateLimiter_new rps burst now = \<lparr>cl_bucket = TokenBucket_new rps burst now\<rparr>"

definition ConnRateLimiter_allow :: "instant \<Rightarrow> ConnRateLimiter \<Rightarrow> bool \<times> ConnRateLimiter" where
  "ConnRateLimiter_allow now l =
     (let (ok, b) = TokenBucket_allow now (cl_bucket l) in (ok, l\<lparr>cl_bucket := b\<rparr>))"

record RateLimiter =
  rl_poisoned :: bool
  rl_inner :: TokenBucket

definition RateLimiter_new :: "u32 \<Rightarrow> u32 \<Rightarrow> instant \<Rightarrow> RateLimiter" where
  "RateLimiter_new rps burst now = \<lparr>rl_poisoned = False, rl_inner = TokenBucket_new rps burst now\<rparr>"

definition RateLimiter_allow :: "instant \<Rightarrow> RateLimiter \<Rightarrow> bool \<times> RateLimiter" where
  "RateLimiter_allow now l =
     (if \<not> rl_poisoned l then
        (let (ok, b) = TokenBucket_allow now (rl_inner l) in (ok, l\<lparr>rl_inner := b\<rparr>))
      else (False, l))"

section \<open>Tenant policy runtime\<close>

datatype PolicyDecision =
    PD_Pass
  | PD_Drop
  | PD_Reject ClientCode string
  | PD_Close ClientCode string

record TenantPolicyRuntime =
  pr_tenant_id :: string
  pr_max_frame_bytes :: usize
  pr_ext_rules :: "ExtRule list"
  pr_hot_rules :: "HotRule list"
  pr_rate_limit_scope :: RateLimitScope
  pr_conn_rps :: u32
  pr_conn_burst :: u32
  pr_tenant_limiter :: "RateLimiter option"
  pr_sessions :: SessionPolicy
  pr_hot_error_mode :: HotErrorMode
  pr_hot_requires_active_room :: bool

definition TenantPolicyRuntime_new ::
  "string \<Rightarrow> usize \<Rightarrow> TenantPolicy \<Rightarrow> instant \<Rightarrow> TenantPolicyRuntime result" where
  "TenantPolicyRuntime_new tenant_id max_frame_bytes policy now =
     and_then (compile_ext_rules (tp_ext_allowlist policy)) (\<lambda>ext_rules.
     and_then (compile_hot_rules (tp_hot_allowlist policy)) (\<lambda>hot_rules.
       let tenant_limiter =
         (case tp_rate_limit_scope policy of
            RLS_Tenant \<Rightarrow>
              Some (RateLimiter_new (tp_rate_limit_rps policy) (tp_rate_limit_burst policy) now)
          | RLS_Both \<Rightarrow>
              Some (RateLimiter_new (tp_rate_limit_rps policy) (tp_rate_limit_burst policy) now)
          | RLS_Connection \<Rightarrow> None)
       in Inr \<lparr>pr_tenant_id = tenant_id, pr_max_frame_bytes = max_frame_bytes,
               pr_ext_rules = ext_rules, pr_hot_rules = hot_rules,
               pr_rate_limit_scope = tp_rate_limit_scope policy,
               pr_conn_rps = tp_rate_limit_rps policy, pr_conn_burst = tp_rate_limit_burst policy,
               pr_tenant_limiter = tenant_limiter, pr_sessions = tp_sessions policy,
               pr_hot_error_mode = tp_hot_error_mode policy,
               pr_hot_requires_active_room = tp_hot_requires_active_room policy\<rparr>))"

definition new_connection_limiter :: "instant \<Rightarrow> TenantPolicyRuntime \<Rightarrow> ConnRateLimiter option" where
  "new_connection_limiter now p =
     (case pr_rate_limit_scope p of
        RLS_Connection \<Rightarrow> Some (ConnRateLimiter_new (pr_conn_rps p) (pr_conn_burst p) now)
      | RLS_Both \<Rightarrow> Some (ConnRateLimiter_new (pr_conn_rps p) (pr_conn_burst p) now)
      | RLS_Tenant \<Rightarrow> None)"

definition check_len :: "TenantPolicyRuntime \<Rightarrow> usize \<Rightarrow> PolicyDecision" where
  "check_len p bytes_len =
     (if bytes_len > pr_max_frame_bytes p then PD_Close CC_BadRequest ''frame too large''
      else PD_Pass)"

text \<open>The tenant limiter, if there is one: the answer and the updated runtime.\<close>

definition tenant_allow :: "instant \<Rightarrow> TenantPolicyRuntime \<Rightarrow> bool \<times> TenantPolicyRuntime" where
  "tenant_allow now p =
     (case pr_tenant_limiter p of
        None \<Rightarrow> (True, p)
      | Some l \<Rightarrow>
          (let (ok, l') = RateLimiter_allow now l in (ok, p\<lparr>pr_tenant_limiter := Some l'\<rparr>)))"

definition check_text ::
  "instant \<Rightarrow> TenantPolicyRuntime \<Rightarrow> usize \<Rightarrow> string \<Rightarrow> string \<Rightarrow> PolicyDecision \<times> TenantPolicyRuntime" where
  "check_text now p bytes_len svc msg_type =
     (case check_len p bytes_len of
        PD_Pass \<Rightarrow>
          (let (ok, p) = tenant_allow now p in
           if \<not> ok then (PD_Drop, p)
           else if pr_ext_rules p = [] then
             (PD_Reject CC_BadRequest ''ext_allowlist empty (strict deny)'', p)
           else if \<not> is_ext_allowed (pr_ext_rules p) svc msg_type then
             (PD_Reject CC_BadRequest ''svc/type not allowed'', p)
           else (PD_Pass, p))
      | other \<Rightarrow> (other, p))"

definition check_hot ::
  "instant \<Rightarrow> TenantPolicyRuntime \<Rightarrow> usize \<Rightarrow> u8 \<Rightarrow> u8 \<Rightarrow> PolicyDecision \<times> TenantPolicyRuntime" where
  "check_hot now p bytes_len svc_id opcode =
     (case check_len p bytes_len of
        PD_Pass \<Rightarrow>
          (let (ok, p) = tenant_allow now p in
           if \<not> ok then (PD_Drop, p)
           else if pr_hot_rules p = [] then (PD_Drop, p)
           else if \<not> is_hot_allowed (pr_hot_rules p) svc_id opcode then (PD_Drop, p)
           else (PD_Pass, p))
      | other \<Rightarrow> (other, p))"

section \<open>Lemmas on the bucket\<close>

definition tb_inv :: "TokenBucket \<Rightarrow> bool" where
  "tb_inv b \<longleftrightarrow> tb_rps b \<noteq> 0 \<and> tb_capacity b \<noteq> 0 \<and> tb_tokens b \<le> tb_capacity b"

definition tb_credit :: "instant \<Rightarrow> TokenBucket \<Rightarrow> real" where
  "tb_credit t b = real (unat (tb_tokens b)) + real (unat (tb_rps b)) * seconds (t - tb_last b)"

definition tb_rate :: "TokenBucket \<Rightarrow> real" where
  "tb_rate b = real (unat (tb_rps b))"

text \<open>Truncation and wrap-around only ever lose tokens.\<close>

lemma tokens_to_add_le: "unat (tokens_to_add n r) \<le> n div 1000000 * unat r div 1000"
proof -
  have "unat (tokens_to_add n r) \<le> unat ((of_nat (n div 1000000) :: u64) * ucast r) div 1000"
    unfolding tokens_to_add_def
    using unat_ucast_le [of "(of_nat (n div 1000000) :: u64) * ucast r div 1000", where 'b = 32]
    by (simp add: unat_div)
  also have "\<dots> \<le> (unat (of_nat (n div 1000000) :: u64) * unat r) div 1000"
    using unat_mult_le [of "of_nat (n div 1000000) :: u64" "ucast r"] by (simp add: div_le_mono)
  also have "\<dots> \<le> n div 1000000 * unat r div 1000"
    by (intro div_le_mono mult_le_mono1 unat_of_nat_le)
  finally show ?thesis .
qed

lemma tokens_to_add_seconds: "real (unat (tokens_to_add n r)) \<le> real (unat r) * seconds n"
proof -
  have "unat (tokens_to_add n r) * 1000000000 \<le> (n div 1000000 * unat r div 1000) * 1000 * 1000000"
    using tokens_to_add_le [of n r] by simp
  also have "\<dots> \<le> (n div 1000000 * unat r) * 1000000"
    by (intro mult_le_mono1) simp
  also have "\<dots> \<le> n * unat r"
    by (metis div_times_less_eq_dividend mult.assoc mult.commute mult_le_mono1)
  finally have "real (unat (tokens_to_add n r) * 1000000000) \<le> real (n * unat r)"
    by (rule of_nat_mono)
  then show ?thesis by (simp add: field_simps)
qed

lemma refill_simps [simp]:
  "tb_rps (refill t b) = tb_rps b"
  "tb_capacity (refill t b) = tb_capacity b"
  by (simp_all add: refill_def Let_def)

lemma refill_inv: "tb_inv b \<Longrightarrow> tb_inv (refill t b)"
  by (simp add: tb_inv_def refill_def Let_def)

lemma refill_credit: "tb_credit t (refill t b) \<le> tb_credit t b"
proof (cases "50 * 1000000 \<le> t - tb_last b \<and> 0 < tokens_to_add (t - tb_last b) (tb_rps b)")
  case True
  let ?add = "tokens_to_add (t - tb_last b) (tb_rps b)"
  have "unat (min (tb_tokens b + ?add) (tb_capacity b)) \<le> unat (tb_tokens b) + unat ?add"
    using unat_add_le [of "tb_tokens b" ?add] by (simp add: unat_min)
  then have "real (unat (min (tb_tokens b + ?add) (tb_capacity b)))
      \<le> real (unat (tb_tokens b)) + real (unat ?add)"
    by linarith
  with True show ?thesis
    using tokens_to_add_seconds [of "t - tb_last b" "tb_rps b"]
    by (simp add: tb_credit_def refill_def Let_def)
next
  case False
  then show ?thesis by (auto simp: tb_credit_def refill_def Let_def)
qed

lemma TokenBucket_allow_simps [simp]:
  "tb_rps (snd (TokenBucket_allow t b)) = tb_rps b"
  "tb_capacity (snd (TokenBucket_allow t b)) = tb_capacity b"
  by (simp_all add: TokenBucket_allow_def Let_def)

lemma TokenBucket_allow_inv: "tb_inv b \<Longrightarrow> tb_inv (snd (TokenBucket_allow t b))"
proof -
  assume "tb_inv b"
  then have r: "tb_inv (refill t b)" by (rule refill_inv)
  have "tb_tokens (refill t b) - 1 \<le> tb_tokens (refill t b)" if "tb_tokens (refill t b) \<noteq> 0"
    using that by (simp add: word_le_nat_alt unat_minus_one_pos)
  with r show ?thesis
    by (fastforce simp: TokenBucket_allow_def Let_def tb_inv_def)
qed

lemma TokenBucket_allow_credit:
  "tb_credit t (snd (TokenBucket_allow t b)) + (if fst (TokenBucket_allow t b) then 1 else 0)
     \<le> tb_credit t b"
proof (cases "tb_tokens (refill t b) = 0")
  case True
  then show ?thesis using refill_credit [of t b] by (simp add: TokenBucket_allow_def Let_def)
next
  case False
  then have "unat (tb_tokens (refill t b) - 1) + 1 = unat (tb_tokens (refill t b))"
    by (simp add: unat_minus_one_pos word_neq_0_unat)
  then have "real (unat (tb_tokens (refill t b) - 1)) + 1 = real (unat (tb_tokens (refill t b)))"
    by (metis of_nat_1 of_nat_add)
  with False show ?thesis
    using refill_credit [of t b] by (simp add: TokenBucket_allow_def Let_def tb_credit_def)
qed

lemma tb_credit_grows:
  assumes "t \<le> t'"
  shows "tb_credit t' b \<le> tb_credit t b + tb_rate b * seconds (t' - t)"
proof -
  have "t' - tb_last b \<le> (t - tb_last b) + (t' - t)" using assms by simp
  then have "real (t' - tb_last b) \<le> real (t - tb_last b) + real (t' - t)"
    by (metis of_nat_add of_nat_le_iff)
  then have "seconds (t' - tb_last b) \<le> seconds (t - tb_last b) + seconds (t' - t)"
    by (simp add: field_simps)
  then have "real (unat (tb_rps b)) * seconds (t' - tb_last b)
      \<le> real (unat (tb_rps b)) * (seconds (t - tb_last b) + seconds (t' - t))"
    by (intro mult_left_mono) simp_all
  then show ?thesis by (simp add: tb_credit_def tb_rate_def distrib_left)
qed

lemma tb_credit_nonneg: "0 \<le> tb_credit t b"
  by (simp add: tb_credit_def)

lemma tb_rate_nonneg: "0 \<le> tb_rate b"
  by (simp add: tb_rate_def)

lemma TokenBucket_allow_rate: "tb_rate (snd (TokenBucket_allow t b)) = tb_rate b"
  by (simp add: tb_rate_def)

lemmas tb_laws = TokenBucket_allow_credit tb_credit_grows tb_credit_nonneg TokenBucket_allow_inv
  tb_rate_nonneg TokenBucket_allow_rate

interpretation tb: rate_limited "\<lambda>_ :: unit. TokenBucket_allow" tb_credit tb_rate tb_inv
  by unfold_locales (simp_all only: tb_laws)

lemma TokenBucket_new_inv: "tb_inv (TokenBucket_new rps burst now)"
  by (auto simp: tb_inv_def TokenBucket_new_def Let_def max_def)

lemma TokenBucket_new_simps [simp]:
  "tb_rps (TokenBucket_new rps burst now) = max rps 1"
  "tb_capacity (TokenBucket_new rps burst now) = max burst 1"
  "tb_tokens (TokenBucket_new rps burst now) = max burst 1"
  "tb_last (TokenBucket_new rps burst now) = now"
  by (simp_all add: TokenBucket_new_def Let_def)

text \<open>Within the range of the machine types the refill is the one of the specification.\<close>

lemma tokens_to_add_exact:
  assumes "n div 1000000 * unat r div 1000 < 2 ^ 32" and "n div 1000000 < 2 ^ 64"
  shows "unat (tokens_to_add n r) = n div 1000000 * unat r div 1000"
proof -
  let ?m = "n div 1000000"
  have "?m * unat r < 2 ^ 64"
    using assms(1) by (simp add: div_less_iff_less_mult)
  moreover have m: "unat (of_nat ?m :: u64) = ?m"
    using assms(2) by (simp add: unat_of_nat)
  ultimately have "unat ((of_nat ?m :: u64) * ucast r) = ?m * unat r"
    by (simp add: unat_word_ariths)
  then show ?thesis
    using assms(1) by (simp add: tokens_to_add_def unat_div unsigned_ucast_eq take_bit_nat_eq_self)
qed

lemma refill_gain:
  assumes "0 < unat r" and "n div 1000000 * unat r div 1000 < 2 ^ 32"
  shows "unat (tokens_to_add n r) = n div 1000000 * unat r div 1000"
proof (rule tokens_to_add_exact [OF assms(2)])
  have "n div 1000000 \<le> n div 1000000 * unat r" using assms(1) by simp
  also have "\<dots> < 2 ^ 64" using assms(2) by (simp add: div_less_iff_less_mult)
  finally show "n div 1000000 < 2 ^ 64" .
qed

lemma refill_tokens_exact:
  assumes "50000000 \<le> t - tb_last b"
    and "(t - tb_last b) div 1000000 < 2 ^ 64"
    and "unat (tb_tokens b) + (t - tb_last b) div 1000000 * unat (tb_rps b) div 1000 < 2 ^ 32"
  shows "unat (tb_tokens (refill t b)) =
     (let add = (t - tb_last b) div 1000000 * unat (tb_rps b) div 1000
      in if add = 0 then unat (tb_tokens b)
         else min (unat (tb_tokens b) + add) (unat (tb_capacity b)))"
proof -
  let ?add = "tokens_to_add (t - tb_last b) (tb_rps b)"
  have add: "unat ?add = (t - tb_last b) div 1000000 * unat (tb_rps b) div 1000"
    using assms(2,3) by (intro tokens_to_add_exact) simp_all
  with assms(3) have sum: "unat (tb_tokens b + ?add) = unat (tb_tokens b) + unat ?add"
    by (simp add: unat_word_ariths)
  have zero: "0 < ?add \<longleftrightarrow> unat ?add \<noteq> 0" by (simp add: word_less_nat_alt)
  show ?thesis
    using assms(1) by (simp add: refill_def Let_def unat_min sum zero add [symmetric])
qed

section \<open>The limiters as instances of the contract\<close>

definition cl_credit :: "instant \<Rightarrow> ConnRateLimiter \<Rightarrow> real" where
  "cl_credit t l = tb_credit t (cl_bucket l)"

lemma ConnRateLimiter_allow_bucket:
  "fst (ConnRateLimiter_allow t l) = fst (TokenBucket_allow t (cl_bucket l))"
  "cl_bucket (snd (ConnRateLimiter_allow t l)) = snd (TokenBucket_allow t (cl_bucket l))"
  by (simp_all add: ConnRateLimiter_allow_def case_prod_unfold Let_def)

interpretation cl: rate_limited "\<lambda>_ :: unit. ConnRateLimiter_allow" cl_credit
  "\<lambda>l. tb_rate (cl_bucket l)" "\<lambda>l. tb_inv (cl_bucket l)"
  by unfold_locales (simp_all only: cl_credit_def ConnRateLimiter_allow_bucket tb_laws)

text \<open>A check on either lane as a request to the shared tenant limiter.\<close>

datatype policy_request = Req_Text usize string string | Req_Hot usize u8 u8

fun policy_check :: "policy_request \<Rightarrow> instant \<Rightarrow> TenantPolicyRuntime \<Rightarrow> PolicyDecision \<times> TenantPolicyRuntime" where
  "policy_check (Req_Text n svc ty) now p = check_text now p n svc ty"
| "policy_check (Req_Hot n sid op) now p = check_hot now p n sid op"

definition policy_passes :: "(policy_request, TenantPolicyRuntime) limiter_step" where
  "policy_passes r now p = (fst (policy_check r now p) = PD_Pass, snd (policy_check r now p))"

definition pr_bucket :: "TenantPolicyRuntime \<Rightarrow> TokenBucket option" where
  "pr_bucket p = map_option rl_inner (pr_tenant_limiter p)"

definition pr_credit :: "instant \<Rightarrow> TenantPolicyRuntime \<Rightarrow> real" where
  "pr_credit t p = (case pr_bucket p of None \<Rightarrow> 0 | Some b \<Rightarrow> tb_credit t b)"

definition pr_rate :: "TenantPolicyRuntime \<Rightarrow> real" where
  "pr_rate p = (case pr_bucket p of None \<Rightarrow> 0 | Some b \<Rightarrow> tb_rate b)"

definition pr_limited :: "TenantPolicyRuntime \<Rightarrow> bool" where
  "pr_limited p \<longleftrightarrow> (\<exists>b. pr_bucket p = Some b \<and> tb_inv b)"

lemma tenant_allow_cases:
  assumes "pr_bucket p = Some b"
  shows "tenant_allow t p = (False, p) \<or>
    (\<exists>l. pr_tenant_limiter p = Some l \<and> rl_inner l = b \<and>
      tenant_allow t p = (fst (TokenBucket_allow t b),
        p\<lparr>pr_tenant_limiter := Some (l\<lparr>rl_inner := snd (TokenBucket_allow t b)\<rparr>)\<rparr>))"
  using assms
  by (auto simp: pr_bucket_def tenant_allow_def RateLimiter_allow_def case_prod_unfold Let_def)

lemma tenant_allow_static [simp]:
  "pr_ext_rules (snd (tenant_allow t p)) = pr_ext_rules p"
  "pr_hot_rules (snd (tenant_allow t p)) = pr_hot_rules p"
  "pr_max_frame_bytes (snd (tenant_allow t p)) = pr_max_frame_bytes p"
  by (simp_all add: tenant_allow_def case_prod_unfold Let_def split: option.splits)

lemma check_text_eq:
  "check_text t p n svc ty =
     (if n > pr_max_frame_bytes p then (PD_Close CC_BadRequest ''frame too large'', p)
      else (if \<not> fst (tenant_allow t p) then PD_Drop
            else if pr_ext_rules p = [] then PD_Reject CC_BadRequest ''ext_allowlist empty (strict deny)''
            else if \<not> is_ext_allowed (pr_ext_rules p) svc ty then PD_Reject CC_BadRequest ''svc/type not allowed''
            else PD_Pass, snd (tenant_allow t p)))"
  by (simp add: check_text_def check_len_def case_prod_unfold Let_def)

lemma check_hot_eq:
  "check_hot t p n sid op =
     (if n > pr_max_frame_bytes p then (PD_Close CC_BadRequest ''frame too large'', p)
      else (if fst (tenant_allow t p) \<and> is_hot_allowed (pr_hot_rules p) sid op then PD_Pass else PD_Drop,
            snd (tenant_allow t p)))"
  by (simp add: check_hot_def check_len_def case_prod_unfold Let_def is_hot_allowed_def)

lemma policy_check_cases:
  "policy_check r t p = (PD_Close CC_BadRequest ''frame too large'', p)
   \<or> (\<exists>d. policy_check r t p = (d, snd (tenant_allow t p)) \<and> (d = PD_Pass \<longrightarrow> fst (tenant_allow t p)))"
  by (cases r) (simp_all add: check_text_eq check_hot_eq)

lemma policy_check_bucket:
  assumes "pr_bucket p = Some b"
  shows "snd (policy_check r t p) = p \<and> fst (policy_check r t p) \<noteq> PD_Pass
    \<or> pr_bucket (snd (policy_check r t p)) = Some (snd (TokenBucket_allow t b))
      \<and> (fst (policy_check r t p) = PD_Pass \<longrightarrow> fst (TokenBucket_allow t b))"
  using tenant_allow_cases [OF assms, of t] policy_check_cases [of r t p]
  by (auto simp: pr_bucket_def)

lemma policy_passes_credit:
  assumes "pr_limited p"
  shows "pr_credit t (snd (policy_passes r t p)) + (if fst (policy_passes r t p) then 1 else 0)
      \<le> pr_credit t p"
    and "pr_limited (snd (policy_passes r t p))"
    and "pr_rate (snd (policy_passes r t p)) = pr_rate p"
proof -
  from assms obtain b where b: "pr_bucket p = Some b" "tb_inv b" by (auto simp: pr_limited_def)
  from policy_check_bucket [OF b(1), of r t]
  consider "snd (policy_check r t p) = p" "fst (policy_check r t p) \<noteq> PD_Pass"
    | "pr_bucket (snd (policy_check r t p)) = Some (snd (TokenBucket_allow t b))"
      "fst (policy_check r t p) = PD_Pass \<longrightarrow> fst (TokenBucket_allow t b)"
    by blast
  note cases = this
  show "pr_credit t (snd (policy_passes r t p)) + (if fst (policy_passes r t p) then 1 else 0)
      \<le> pr_credit t p"
    using cases b TokenBucket_allow_credit [of t b]
    by cases (auto simp: policy_passes_def pr_credit_def split: if_splits)
  show "pr_limited (snd (policy_passes r t p))"
    using cases b TokenBucket_allow_inv [of b t] assms
    by cases (auto simp: policy_passes_def pr_limited_def)
  show "pr_rate (snd (policy_passes r t p)) = pr_rate p"
    using cases b by cases (auto simp: policy_passes_def pr_rate_def TokenBucket_allow_rate)
qed

lemma pr_credit_laws:
  "0 \<le> pr_credit t p"
  "t \<le> t' \<Longrightarrow> pr_credit t' p \<le> pr_credit t p + pr_rate p * seconds (t' - t)"
  "0 \<le> pr_rate p"
  by (cases "pr_bucket p"; simp only: pr_credit_def pr_rate_def option.case tb_laws; simp)+

interpretation pl: rate_limited policy_passes pr_credit pr_rate pr_limited
  by unfold_locales (simp_all only: policy_passes_credit pr_credit_laws)

section \<open>Deny by default\<close>

text \<open>What no check changes: the rules and the frame limit stay those of the configuration.\<close>

lemma policy_check_static:
  "pr_ext_rules (snd (policy_check r t p)) = pr_ext_rules p"
  "pr_hot_rules (snd (policy_check r t p)) = pr_hot_rules p"
  "pr_max_frame_bytes (snd (policy_check r t p)) = pr_max_frame_bytes p"
  using policy_check_cases [of r t p] by auto

lemma policy_run_static:
  "pr_ext_rules (run_limiter policy_passes p rs) = pr_ext_rules p"
  "pr_hot_rules (run_limiter policy_passes p rs) = pr_hot_rules p"
  "pr_max_frame_bytes (run_limiter policy_passes p rs) = pr_max_frame_bytes p"
  by (induction rs arbitrary: p) (auto simp: policy_passes_def policy_check_static)

lemma TenantPolicyRuntime_new_Inr:
  "TenantPolicyRuntime_new tid mx pol now = Inr rt \<Longrightarrow>
     compile_ext_rules (tp_ext_allowlist pol) = Inr (pr_ext_rules rt)
   \<and> compile_hot_rules (tp_hot_allowlist pol) = Inr (pr_hot_rules rt)
   \<and> pr_max_frame_bytes rt = mx \<and> pr_rate_limit_scope rt = tp_rate_limit_scope pol
   \<and> pr_bucket rt = (if tp_rate_limit_scope pol = RLS_Connection then None
        else Some (TokenBucket_new (tp_rate_limit_rps pol) (tp_rate_limit_burst pol) now))"
  by (auto simp: TenantPolicyRuntime_new_def and_then_eq_Inr pr_bucket_def RateLimiter_new_def
      split: RateLimitScope.splits)

section \<open>Properties\<close>

text \<open>
  C10: The shared tenant limiter bounds a whole tenant: with scope \<open>tenant\<close> or \<open>both\<close>, over any
  interleaving of Ext and Hot Lane checks from all connections, at instants that never go back, the
  number of frames that pass from the creation of the policy up to an instant is at most the burst
  capacity plus rate times the elapsed seconds.  It holds for all inputs, with every truncation and
  wrap-around of the arithmetic included.
\<close>

theorem tenant_rate_bound:
  assumes "TenantPolicyRuntime_new tid mx pol now = Inr rt"
    and "tp_rate_limit_scope pol \<noteq> RLS_Connection"
    and "in_window now t1 reqs"
  shows "real (admitted policy_passes rt reqs)
     \<le> real (unat (max (tp_rate_limit_burst pol) 1))
       + real (unat (max (tp_rate_limit_rps pol) 1)) * seconds (t1 - now)"
proof -
  have b: "pr_bucket rt = Some (TokenBucket_new (tp_rate_limit_rps pol) (tp_rate_limit_burst pol) now)"
    using TenantPolicyRuntime_new_Inr [OF assms(1)] assms(2) by simp
  then have "pr_limited rt" by (simp add: pr_limited_def TokenBucket_new_inv)
  from pl.admitted_credit [OF this assms(3)] show ?thesis
    by (simp add: pr_credit_def pr_rate_def b tb_credit_def tb_rate_def)
qed

theorem tenant_rate_bound_witness:
  "\<exists>rt. TenantPolicyRuntime_new ''acme'' 4096
        (TenantPolicy_default\<lparr>tp_rate_limit_scope := RLS_Tenant\<rparr>) 0 = Inr rt
     \<and> real (admitted policy_passes rt [(Req_Text 10 ''room'' ''join'', 5), (Req_Hot 9 1 1, 7)])
         \<le> real (unat (400 :: u32)) + real (unat (200 :: u32)) * seconds 8"
proof -
  let ?pol = "TenantPolicy_default\<lparr>tp_rate_limit_scope := RLS_Tenant\<rparr>"
  obtain rt where rt: "TenantPolicyRuntime_new ''acme'' 4096 ?pol 0 = Inr rt"
    by (simp add: TenantPolicyRuntime_new_def TenantPolicy_default_def default_ext_allowlist_def
        compile_ext_rule_def)
  have "in_window 0 8 [(Req_Text 10 ''room'' ''join'', 5), (Req_Hot 9 1 1, 7)]" by simp
  from tenant_rate_bound [OF rt _ this] rt show ?thesis
    by (auto simp: TenantPolicy_default_def default_rate_limit_rps_def default_rate_limit_burst_def)
qed

text \<open>
  C11: Deny by default, through the whole policy: whatever checks ran before, a text frame passes
  iff its length is within the tenant's limit, its service and type are listed in the configured
  allowlist (literally or by the service's wildcard) and the tenant limiter has a token; a hot frame
  iff the same holds for its service id and opcode.
\<close>

theorem policy_pass_iff:
  assumes "TenantPolicyRuntime_new tid mx pol now = Inr rt"
    and "p = run_limiter policy_passes rt reqs"
  shows "(fst (check_text t p n svc ty) = PD_Pass \<longleftrightarrow>
      n \<le> mx \<and> fst (tenant_allow t p) \<and> CHR '':'' \<notin> set svc
      \<and> (svc @ '':*'' \<in> set (tp_ext_allowlist pol) \<or> svc @ '':'' @ ty \<in> set (tp_ext_allowlist pol)))
    \<and> (fst (check_hot t p n sid op) = PD_Pass \<longleftrightarrow>
      n \<le> mx \<and> fst (tenant_allow t p)
      \<and> (\<exists>a b. a @ CHR '':'' # b \<in> set (tp_hot_allowlist pol) \<and> CHR '':'' \<notin> set a
           \<and> parse_u8 a = Some sid \<and> (b = ''*'' \<or> parse_u8 b = Some op)))"
proof -
  note new = TenantPolicyRuntime_new_Inr [OF assms(1)]
  have e: "is_ext_allowed (pr_ext_rules p) svc ty \<longleftrightarrow> CHR '':'' \<notin> set svc
      \<and> (svc @ '':*'' \<in> set (tp_ext_allowlist pol) \<or> svc @ '':'' @ ty \<in> set (tp_ext_allowlist pol))"
    using ext_allowed_iff [OF new [THEN conjunct1]] by (simp add: assms(2) policy_run_static)
  have h: "is_hot_allowed (pr_hot_rules p) sid op \<longleftrightarrow> (\<exists>a b. a @ CHR '':'' # b \<in> set (tp_hot_allowlist pol)
      \<and> CHR '':'' \<notin> set a \<and> parse_u8 a = Some sid \<and> (b = ''*'' \<or> parse_u8 b = Some op))"
    using hot_allowed_iff [of "tp_hot_allowlist pol"] new by (simp add: assms(2) policy_run_static)
  have mx: "pr_max_frame_bytes p = mx" using new by (simp add: assms(2) policy_run_static)
  have ne: "is_ext_allowed (pr_ext_rules p) svc ty \<Longrightarrow> pr_ext_rules p \<noteq> []"
    by (auto simp: is_ext_allowed_def)
  show ?thesis
    unfolding e [symmetric] h [symmetric] using ne by (auto simp: check_text_eq check_hot_eq mx)
qed

theorem policy_pass_iff_witness:
  "\<exists>rt. TenantPolicyRuntime_new ''acme'' 4096 TenantPolicy_default 0 = Inr rt
     \<and> fst (check_text 1 rt 30 ''room'' ''join'') = PD_Pass
     \<and> fst (check_text 1 rt 30 ''chat'' ''send'') \<noteq> PD_Pass
     \<and> fst (check_hot 1 rt 30 1 1) \<noteq> PD_Pass"
proof -
  obtain rt where rt: "TenantPolicyRuntime_new ''acme'' 4096 TenantPolicy_default 0 = Inr rt"
    by (simp add: TenantPolicyRuntime_new_def TenantPolicy_default_def default_ext_allowlist_def
        compile_ext_rule_def)
  have p: "rt = run_limiter policy_passes rt []" by simp
  have "pr_bucket rt = None"
    using TenantPolicyRuntime_new_Inr [OF rt]
    by (simp add: TenantPolicy_default_def default_rate_limit_scope_def)
  then have "fst (tenant_allow 1 rt)" by (simp add: pr_bucket_def tenant_allow_def)
  then show ?thesis
    using rt policy_pass_iff [OF rt p, of 1 30 "''room''" "''join''" 1 1]
      policy_pass_iff [OF rt p, of 1 30 "''chat''" "''send''" 1 1]
    by (auto simp: TenantPolicy_default_def default_ext_allowlist_def)
qed

text \<open>
  C23: The bucket recovers: as long as the arithmetic stays within its machine types, a request that
  comes at least 50 ms after the last refill and late enough for one whole token (milliseconds times
  rate at least 1000) is admitted, whatever the bucket's level was, and the bucket then holds the
  refilled level, capped by its capacity, minus one.
\<close>

theorem token_bucket_recovers:
  assumes "tb_inv b"
    and "50000000 \<le> now - tb_last b"
    and "1000 \<le> (now - tb_last b) div 1000000 * unat (tb_rps b)"
    and "(now - tb_last b) div 1000000 < 2 ^ 64"
    and "unat (tb_capacity b) + (now - tb_last b) div 1000000 * unat (tb_rps b) div 1000 < 2 ^ 32"
  shows "fst (TokenBucket_allow now b)
    \<and> unat (tb_tokens (snd (TokenBucket_allow now b))) =
        min (unat (tb_tokens b) + (now - tb_last b) div 1000000 * unat (tb_rps b) div 1000)
          (unat (tb_capacity b)) - 1"
proof -
  let ?add = "(now - tb_last b) div 1000000 * unat (tb_rps b) div 1000"
  have cap: "unat (tb_tokens b) \<le> unat (tb_capacity b)" "0 < unat (tb_capacity b)"
    using assms(1) by (simp_all add: tb_inv_def word_le_nat_alt word_neq_0_unat)
  have add: "?add \<noteq> 0" using assms(3) by (simp add: div_eq_0_iff)
  have t: "unat (tb_tokens (refill now b)) = min (unat (tb_tokens b) + ?add) (unat (tb_capacity b))"
    using refill_tokens_exact [OF assms(2,4)] assms(5) cap add by simp
  then have "tb_tokens (refill now b) \<noteq> 0"
    using cap add by (simp only: word_neq_0_unat) simp
  then show ?thesis
    using t by (simp add: TokenBucket_allow_def Let_def unat_minus_one_pos)
qed

theorem token_bucket_recovers_witness:
  "let b = \<lparr>tb_rps = 200, tb_capacity = 400, tb_tokens = 0, tb_last = 0\<rparr> in
     \<not> fst (TokenBucket_allow 49000000 b) \<and> fst (TokenBucket_allow 60000000 b)
     \<and> unat (tb_tokens (snd (TokenBucket_allow 60000000 b))) = 11"
proof -
  let ?b = "\<lparr>tb_rps = 200, tb_capacity = 400, tb_tokens = 0, tb_last = 0\<rparr>"
  have "\<not> fst (TokenBucket_allow 49000000 ?b)" by (simp add: TokenBucket_allow_def refill_def)
  moreover have "fst (TokenBucket_allow 60000000 ?b)
      \<and> unat (tb_tokens (snd (TokenBucket_allow 60000000 ?b))) = 11"
    using token_bucket_recovers [of ?b 60000000] by (simp add: tb_inv_def)
  ultimately show ?thesis by (simp add: Let_def)
qed

text \<open>
  C26: The sum in the refill wraps.  For a bucket that was idle for at least 50 ms and gains fewer than \<open>2 ^ 32\<close>
  tokens, the refill loses tokens exactly when the tokens it holds and the tokens it gains reach \<open>2 ^ 32\<close>
  together; it is then left with the excess over \<open>2 ^ 32\<close> (at most its capacity), and denies the next request
  when there is none.  In a build with overflow checks the same addition panics.
\<close>

theorem token_bucket_refill_overflow:
  assumes inv: "tb_inv b" and idle: "50000000 \<le> now - tb_last b"
    and gained: "gained = (now - tb_last b) div 1000000 * unat (tb_rps b) div 1000" "gained < 2 ^ 32"
  shows "(tb_tokens (refill now b) < tb_tokens b \<longleftrightarrow> 2 ^ 32 \<le> unat (tb_tokens b) + gained)
    \<and> (2 ^ 32 \<le> unat (tb_tokens b) + gained \<longrightarrow>
         unat (tb_tokens (refill now b)) = min (unat (tb_tokens b) + gained - 2 ^ 32) (unat (tb_capacity b)))
    \<and> (unat (tb_tokens b) + gained = 2 ^ 32 \<longrightarrow> \<not> fst (TokenBucket_allow now b))"
proof -
  let ?add = "tokens_to_add (now - tb_last b) (tb_rps b)"
  have "0 < unat (tb_rps b)" using inv by (simp add: tb_inv_def word_neq_0_unat)
  then have add: "unat ?add = gained" using refill_gain gained by simp
  have tok: "unat (tb_tokens b) < 2 ^ 32" using unsigned_less [of "tb_tokens b"] by simp
  have le: "unat (tb_tokens b) \<le> unat (tb_capacity b)" using inv by (simp add: tb_inv_def word_le_nat_alt)
  have sum: "unat (tb_tokens b + ?add) = (unat (tb_tokens b) + gained) mod 2 ^ 32" by (simp add: unat_word_ariths add)
  have zero: "0 < ?add \<longleftrightarrow> gained \<noteq> 0" by (simp add: word_less_nat_alt add)
  have re: "unat (tb_tokens (refill now b)) =
      (if gained = 0 then unat (tb_tokens b) else min (unat (tb_tokens b + ?add)) (unat (tb_capacity b)))"
    using idle zero by (simp add: refill_def Let_def unat_min)
  show ?thesis
  proof (cases "2 ^ 32 \<le> unat (tb_tokens b) + gained")
    case True
    then have "(unat (tb_tokens b) + gained) mod 2 ^ 32 = unat (tb_tokens b) + gained - 2 ^ 32"
      using tok gained(2) by (simp add: mod_if)
    with True re sum tok gained(2)
    have "unat (tb_tokens (refill now b)) = min (unat (tb_tokens b) + gained - 2 ^ 32) (unat (tb_capacity b))" by auto
    with True gained(2) show ?thesis
      by (auto simp: word_less_nat_alt TokenBucket_allow_def Let_def unat_eq_zero)
  next
    case False
    with re sum le have "unat (tb_tokens b) \<le> unat (tb_tokens (refill now b))" by auto
    with False show ?thesis by (auto simp: word_less_nat_alt)
  qed
qed

theorem token_bucket_refill_overflow_witness:
  "\<not> fst (TokenBucket_allow (21474834480 * 1000000) (TokenBucket_new default_rate_limit_rps default_rate_limit_burst 0))
   \<and> tb_tokens (refill 1000000000 (TokenBucket_new 3000000000 3000000000 0)) < 3000000000"
proof -
  have inv: "tb_inv (TokenBucket_new rps burst 0)" for rps burst by (rule TokenBucket_new_inv)
  show ?thesis
    using token_bucket_refill_overflow [OF inv, of "21474834480 * 1000000" default_rate_limit_rps default_rate_limit_burst 4294966896]
      token_bucket_refill_overflow [OF inv, of 1000000000 3000000000 3000000000 3000000000]
    by (simp add: TokenBucket_new_def Let_def default_rate_limit_rps_def default_rate_limit_burst_def)
qed

end
