(* ===== verification/Handshake.thy ===== *)
theory Handshake
  imports Config_Schema Rate_Limiter
begin

text \<open>
  The handshake defender (\<open>crates/wsprism-gateway/src/transport/handshake.rs\<close>): a global and a
  per-address leaky bucket in \<open>f64\<close> arithmetic in front of the WebSocket upgrade.  An \<open>f64\<close> is a real
  number and every arithmetic operation is followed by rounding to a 53-bit significand, ties to
  even.  The values that occur lie far inside the exponent range, so neither overflow nor
  subnormal numbers arise.
\<close>

section \<open>Rounding\<close>

definition round_half_even :: "real \<Rightarrow> int" where
  "round_half_even z =
     (let f = \<lfloor>z\<rfloor>; d = z - of_int f in
      if d < 1/2 then f else if d > 1/2 then f + 1 else if even f then f else f + 1)"

definition ulp_exp :: "real \<Rightarrow> int" where
  "ulp_exp x = \<lfloor>log 2 x\<rfloor> - 52"

definition fl64 :: "real \<Rightarrow> real" where
  "fl64 x =
     (if x = 0 then 0
      else (let ulp = 2 powr of_int (ulp_exp \<bar>x\<bar>) in sgn x * (of_int (round_half_even (\<bar>x\<bar> / ulp)) * ulp)))"

text \<open>
  What the defender needs of its arithmetic: rounding is monotone, keeps integers up to \<open>2 ^ 53\<close> and
  leaves rounded values alone.
\<close>

locale rounding =
  fixes fl :: "real \<Rightarrow> real"
  assumes fl_mono: "0 \<le> x \<Longrightarrow> x \<le> y \<Longrightarrow> fl x \<le> fl y"
    and fl_nat: "n \<le> 2 ^ 53 \<Longrightarrow> fl (real n) = real n"
    and fl_idem: "0 \<le> x \<Longrightarrow> fl (fl x) = fl x"
begin

lemma fl_0 [simp]: "fl 0 = 0"
  using fl_nat [of 0] by simp

lemma fl_1 [simp]: "fl 1 = 1"
  using fl_nat [of 1] by simp

lemma fl_nonneg: "0 \<le> x \<Longrightarrow> 0 \<le> fl x"
  using fl_mono [of 0 x] by simp

lemma fl_le_nat: "0 \<le> x \<Longrightarrow> x \<le> real n \<Longrightarrow> n \<le> 2 ^ 53 \<Longrightarrow> fl x \<le> real n"
  using fl_mono [of x "real n"] fl_nat [of n] by simp

lemma nat_le_fl: "real n \<le> x \<Longrightarrow> n \<le> 2 ^ 53 \<Longrightarrow> real n \<le> fl x"
  using fl_mono [of "real n" x] fl_nat [of n] by simp

end

lemma round_half_even_int [simp]: "round_half_even (of_int n) = n"
  by (simp add: round_half_even_def)

lemma round_half_even_bounds: "\<lfloor>z\<rfloor> \<le> round_half_even z" "round_half_even z \<le> \<lfloor>z\<rfloor> + 1"
  by (simp_all add: round_half_even_def Let_def)

lemma round_half_even_mono: "z \<le> z' \<Longrightarrow> round_half_even z \<le> round_half_even z'"
proof -
  assume le: "z \<le> z'"
  show ?thesis
  proof (cases "\<lfloor>z\<rfloor> = \<lfloor>z'\<rfloor>")
    case True
    with le show ?thesis by (auto simp: round_half_even_def Let_def)
  next
    case False
    with floor_mono [OF le] have "\<lfloor>z\<rfloor> + 1 \<le> \<lfloor>z'\<rfloor>" by simp
    with round_half_even_bounds [of z] round_half_even_bounds [of z'] show ?thesis by linarith
  qed
qed

lemma ulp_exp_iff:
  "0 < x \<Longrightarrow> ulp_exp x = e \<longleftrightarrow> 2 ^ 52 * 2 powr of_int e \<le> x \<and> x < 2 ^ 53 * 2 powr of_int e"
proof -
  assume "0 < x"
  have p: "2 powr (of_int e + real k) = 2 ^ k * (2 :: real) powr of_int e" for k
    by (simp add: powr_add powr_realpow)
  have "ulp_exp x = e \<longleftrightarrow> \<lfloor>log 2 x\<rfloor> = e + 52" by (auto simp: ulp_exp_def)
  also have "\<dots> \<longleftrightarrow> 2 powr of_int (e + 52) \<le> x \<and> x < 2 powr (of_int (e + 52) + 1)"
    using floor_log_eq_powr_iff [of x 2 "e + 52"] \<open>0 < x\<close> by simp
  finally show ?thesis using p [of 52] p [of 53] by (simp add: add.assoc)
qed

lemma fl64_pos:
  assumes "0 < x"
  defines "u \<equiv> 2 powr of_int (ulp_exp x)"
  shows "fl64 x = of_int (round_half_even (x / u)) * u" and "0 < u"
    and "2 ^ 52 * u \<le> x" and "x < 2 ^ 53 * u"
  using assms ulp_exp_iff [of x "ulp_exp x"] by (simp_all add: fl64_def Let_def)

text \<open>Every number with a 53-bit significand is kept.\<close>

lemma fl64_multiple:
  "0 < x \<Longrightarrow> x = of_int n * 2 powr of_int (ulp_exp x) \<Longrightarrow> fl64 x = x"
  using fl64_pos(1,2) [of x] by (metis nonzero_mult_div_cancel_right less_irrefl round_half_even_int)

lemma powr2_less_iff: "(2 :: real) powr of_int i \<le> 2 powr of_int j \<longleftrightarrow> i \<le> j"
  by simp

lemma fl64_exact:
  assumes "0 \<le> m" and "m \<le> 2 ^ 53"
  shows "fl64 (of_int m * 2 powr of_int e) = of_int m * 2 powr of_int e"
proof (cases "m = 0")
  case False
  let ?x = "of_int m * 2 powr of_int e :: real"
  define k where "k = ulp_exp ?x"
  have pos: "0 < ?x" using False assms(1) by simp
  have "(of_int m :: real) \<le> of_int (2 ^ 53)" using assms(2) by (simp only: of_int_le_iff)
  then have up: "?x \<le> 2 ^ 53 * 2 powr of_int e" by simp
  have lo: "2 ^ 52 * 2 powr of_int k \<le> ?x" using fl64_pos(3) [OF pos] by (simp add: k_def)
  have "\<exists>n. ?x = of_int n * 2 powr of_int k"
  proof (cases "k \<le> e")
    case True
    then have "(2 :: real) powr of_int e = of_int (2 ^ nat (e - k)) * 2 powr of_int k"
      by (simp add: powr_realpow [symmetric] powr_add [symmetric])
    then have "?x = of_int (m * 2 ^ nat (e - k)) * 2 powr of_int k" by simp
    then show ?thesis by blast
  next
    case False
    have step: "(2 :: real) powr of_int (e + 1) = 2 * 2 powr of_int e" by (simp add: powr_add)
    from False have "(2 :: real) powr of_int (e + 1) \<le> 2 powr of_int k" by (intro powr_mono) auto
    then have "2 ^ 53 * 2 powr of_int e \<le> 2 ^ 52 * (2 :: real) powr of_int k" unfolding step by simp
    with up have "?x \<le> 2 ^ 52 * 2 powr of_int k" by (rule order_trans)
    then have "?x = 2 ^ 52 * 2 powr of_int k" using lo by (rule antisym)
    then show ?thesis by (intro exI [of _ "2 ^ 52"]) simp
  qed
  with fl64_multiple [OF pos] show ?thesis by (auto simp: k_def)
qed (simp add: fl64_def)

lemma fl64_form:
  assumes "0 \<le> x"
  shows "\<exists>m e. fl64 x = of_int m * 2 powr of_int e \<and> 0 \<le> m \<and> m \<le> 2 ^ 53"
proof (cases "x = 0")
  case False
  with assms have pos: "0 < x" by simp
  let ?u = "2 powr of_int (ulp_exp x) :: real" and ?m = "round_half_even (x / 2 powr of_int (ulp_exp x))"
  note f = fl64_pos [OF pos]
  have "round_half_even (of_int 0) \<le> ?m" by (rule round_half_even_mono) (use pos in simp)
  then have "0 \<le> ?m" by (simp only: round_half_even_int)
  moreover have "?m \<le> round_half_even (of_int (2 ^ 53))"
    by (rule round_half_even_mono) (use f(2,4) in \<open>simp add: field_simps\<close>)
  then have "?m \<le> 2 ^ 53" by (simp only: round_half_even_int)
  ultimately show ?thesis using f(1) by blast
qed (auto simp: fl64_def intro!: exI [of _ 0])

lemma fl64_binade:
  assumes "0 < x"
  shows "2 ^ 52 * 2 powr of_int (ulp_exp x) \<le> fl64 x" and "fl64 x \<le> 2 ^ 53 * 2 powr of_int (ulp_exp x)"
proof -
  let ?u = "2 powr of_int (ulp_exp x) :: real"
  note f = fl64_pos [OF assms]
  have "round_half_even (of_int (2 ^ 52)) \<le> round_half_even (x / ?u)"
    by (rule round_half_even_mono) (use f(2,3) in \<open>simp add: field_simps\<close>)
  then have "real_of_int (2 ^ 52) \<le> of_int (round_half_even (x / ?u))"
    by (simp only: of_int_le_iff round_half_even_int)
  then show "2 ^ 52 * ?u \<le> fl64 x" using f(1,2) by simp
  have "round_half_even (x / ?u) \<le> round_half_even (of_int (2 ^ 53))"
    by (rule round_half_even_mono) (use f(2,4) in \<open>simp add: field_simps\<close>)
  then have "of_int (round_half_even (x / ?u)) \<le> real_of_int (2 ^ 53)"
    by (simp only: of_int_le_iff round_half_even_int)
  then show "fl64 x \<le> 2 ^ 53 * ?u" using f(1,2) by simp
qed

lemma ulp_exp_mono: "0 < x \<Longrightarrow> x \<le> y \<Longrightarrow> ulp_exp x \<le> ulp_exp y"
  by (simp add: ulp_exp_def floor_mono)

lemma fl64_mono_pos:
  assumes "0 < x" and "x \<le> y"
  shows "fl64 x \<le> fl64 y"
proof (cases "ulp_exp x = ulp_exp y")
  case True
  let ?u = "2 powr of_int (ulp_exp x) :: real"
  from assms have y: "0 < y" by simp
  have "x / ?u \<le> y / ?u" using assms(2) by (simp add: divide_right_mono)
  then have "round_half_even (x / ?u) \<le> round_half_even (y / ?u)" by (rule round_half_even_mono)
  then show ?thesis
    using fl64_pos(1) [OF assms(1)] fl64_pos(1) [OF y] by (simp add: True mult_right_mono)
next
  case False
  from assms have y: "0 < y" by simp
  from False ulp_exp_mono [OF assms] have "ulp_exp x + 1 \<le> ulp_exp y" by simp
  then have "(2 :: real) powr of_int (ulp_exp x + 1) \<le> 2 powr of_int (ulp_exp y)" by (simp only: powr2_less_iff)
  then have "2 * (2 :: real) powr of_int (ulp_exp x) \<le> 2 powr of_int (ulp_exp y)" by (simp add: powr_add)
  with fl64_binade(2) [OF assms(1)] fl64_binade(1) [OF y] show ?thesis by simp
qed

interpretation f64: rounding fl64
proof unfold_locales
  fix x y :: real
  assume x: "0 \<le> x"
  show "x \<le> y \<Longrightarrow> fl64 x \<le> fl64 y"
  proof (cases "x = 0")
    case True
    assume "x \<le> y"
    with True obtain m e where "fl64 y = of_int m * 2 powr of_int e" "0 \<le> m" using fl64_form [of y] by auto
    then show ?thesis using True by (simp add: fl64_def)
  next
    case False
    assume "x \<le> y"
    with False x show ?thesis by (intro fl64_mono_pos) auto
  qed
  obtain m e where "fl64 x = of_int m * 2 powr of_int e" "0 \<le> m" "m \<le> 2 ^ 53" using fl64_form [OF x] by auto
  then show "fl64 (fl64 x) = fl64 x" by (simp add: fl64_exact)
next
  fix n :: nat
  assume "n \<le> 2 ^ 53"
  then have "int n \<le> 2 ^ 53" by (metis of_nat_le_iff of_nat_numeral of_nat_power)
  with fl64_exact [of "int n" 0] show "fl64 (real n) = real n" by simp
qed

section \<open>The leaky bucket\<close>

record LeakyBucket =
  lb_capacity :: u32
  lb_tokens :: real
  lb_refill_per_sec :: real
  lb_last :: instant

definition LeakyBucket_new :: "instant \<Rightarrow> u32 \<Rightarrow> u32 \<Rightarrow> LeakyBucket" where
  "LeakyBucket_new now capacity refill_per_sec =
     (let cap = max capacity 1 in
      \<lparr>lb_capacity = cap, lb_tokens = real (unat cap),
       lb_refill_per_sec = real (unat (max refill_per_sec 1)), lb_last = now\<rparr>)"

text \<open>\<open>Duration::as_secs_f64\<close>: whole seconds plus the fraction, each step rounded.\<close>

definition as_secs_f64 :: "nat \<Rightarrow> real" where
  "as_secs_f64 d = fl64 (fl64 (real (d div 1000000000)) + fl64 (real (d mod 1000000000) / 1000000000))"

definition lb_refill :: "instant \<Rightarrow> LeakyBucket \<Rightarrow> LeakyBucket" where
  "lb_refill now b =
     (let elapsed = as_secs_f64 (now - lb_last b) in
      b\<lparr>lb_last := now,
        lb_tokens := min (fl64 (lb_tokens b + fl64 (elapsed * lb_refill_per_sec b))) (real (unat (lb_capacity b)))\<rparr>)"

text \<open>\<open>f as u64\<close> truncates towards zero and saturates.\<close>

definition f64_as_u64 :: "real \<Rightarrow> u64" where
  "f64_as_u64 x = of_nat (min (nat \<lfloor>x\<rfloor>) (2 ^ 64 - 1))"

definition try_take :: "instant \<Rightarrow> u32 \<Rightarrow> LeakyBucket \<Rightarrow> (u64 + unit) \<times> LeakyBucket" where
  "try_take now cost b =
     (let b = lb_refill now b;
          c = real (unat (max cost 1))
      in if lb_tokens b \<ge> c then (Inr (), b\<lparr>lb_tokens := fl64 (lb_tokens b - c)\<rparr>)
         else
           (let missing = fl64 (c - lb_tokens b);
                wait = of_int \<lceil>fl64 (missing / lb_refill_per_sec b)\<rceil>
            in (Inl (f64_as_u64 (max wait 1)), b)))"

section \<open>The defender\<close>

text \<open>
  The table of addresses is split into shards, each under a lock that is not reentrant.  \<open>entry(ip)\<close>
  returns a guard that holds the lock of the shard of \<open>ip\<close> for writing, here until \<open>check\<close> returns;
  \<open>len()\<close> locks every shard for reading, and is documented to deadlock when the caller holds such a
  guard.  \<open>hd_held\<close> are the shards whose lock is held by a check that never returns; \<open>shard\<close> is the
  hash function.  A refused check drops its guard.  That a check which never returns also occupies a
  worker thread of the runtime is not modelled.
\<close>

datatype IpAddr = V4 "32 word" | V6 "128 word"

record HandshakeDefender =
  hd_cfg :: HandshakeConfig
  hd_global :: LeakyBucket
  hd_per_ip :: "IpAddr \<rightharpoonup> LeakyBucket"
  hd_held :: "nat set"

definition HandshakeDefender_new :: "instant \<Rightarrow> HandshakeConfig \<Rightarrow> HandshakeDefender" where
  "HandshakeDefender_new now cfg =
     \<lparr>hd_cfg = cfg, hd_global = LeakyBucket_new now (hs_global_burst cfg) (hs_global_rps cfg),
      hd_per_ip = Map.empty, hd_held = {}\<rparr>"

definition hd_enabled :: "HandshakeDefender \<Rightarrow> bool" where
  "hd_enabled d = hs_enabled (hd_cfg d)"

datatype CheckOutcome = CheckOk | CheckErr u64 | CheckHang

text \<open>
  With the limiter enabled, a check that both buckets admit calls \<open>len()\<close> under its own guard; the size
  control that follows in the source is never reached.
\<close>

definition hd_check ::
  "(IpAddr \<Rightarrow> nat) \<Rightarrow> instant \<Rightarrow> IpAddr \<Rightarrow> HandshakeDefender \<Rightarrow> CheckOutcome \<times> HandshakeDefender" where
  "hd_check shard now ip d =
     (if \<not> hs_enabled (hd_cfg d) then (CheckOk, d)
      else
        (let (g, gb) = try_take now 1 (hd_global d);
             d = d\<lparr>hd_global := gb\<rparr>
         in
           case g of
             Inl ra \<Rightarrow> (CheckErr ra, d)
           | Inr _ \<Rightarrow>
               if shard ip \<in> hd_held d then (CheckHang, d)
               else
                 (let entry = (case hd_per_ip d ip of
                                 Some b \<Rightarrow> b
                               | None \<Rightarrow> LeakyBucket_new now (hs_per_ip_burst (hd_cfg d)) (hs_per_ip_rps (hd_cfg d)));
                      (r, b) = try_take now 1 entry;
                      d = d\<lparr>hd_per_ip := (hd_per_ip d)(ip \<mapsto> b)\<rparr>
                  in
                    case r of
                      Inl ra \<Rightarrow> (CheckErr ra, d)
                    | Inr _ \<Rightarrow> (CheckHang, d\<lparr>hd_held := insert (shard ip) (hd_held d)\<rparr>))))"

definition retry_after_header_secs :: "u64 \<Rightarrow> string \<times> u64" where
  "retry_after_header_secs secs = (let s = max secs 1 in (show_nat (unat s), s))"

section \<open>Lemmas on the bucket\<close>

definition lb_inv :: "LeakyBucket \<Rightarrow> bool" where
  "lb_inv b \<longleftrightarrow>
     0 \<le> lb_tokens b \<and> lb_tokens b \<le> real (unat (lb_capacity b)) \<and> fl64 (lb_tokens b) = lb_tokens b
   \<and> lb_capacity b \<noteq> 0 \<and> 1 \<le> lb_refill_per_sec b"

lemma u32_le_53: "unat (x :: u32) \<le> 2 ^ 53"
proof -
  have "unat x < 2 ^ 32" using unsigned_less [of x] by simp
  then show ?thesis by simp
qed

lemma unat_max_1: "1 \<le> unat (max x 1 :: 'a::len word)"
  by (cases "LENGTH('a) = 0") (simp_all add: unat_max)

lemma real_unat_max_1: "1 \<le> real (unat (max x 1 :: 'a::len word))"
  using unat_max_1 [of x] by (metis of_nat_1 of_nat_le_iff)

lemma lb_inv_new: "lb_inv (LeakyBucket_new now c r)"
  using f64.fl_nat [OF u32_le_53, of "max c 1"] real_unat_max_1 [of r] unat_max_1 [of c]
  by (auto simp: lb_inv_def LeakyBucket_new_def Let_def)

lemma as_secs_f64_nonneg: "0 \<le> as_secs_f64 d"
  unfolding as_secs_f64_def by (intro f64.fl_nonneg add_nonneg_nonneg) simp_all

lemma as_secs_f64_0 [simp]: "as_secs_f64 0 = 0"
  by (simp add: as_secs_f64_def)

lemma as_secs_f64_ge_1:
  assumes "1000000000 \<le> d"
  shows "1 \<le> as_secs_f64 d"
proof -
  have "1 \<le> d div 1000000000" using div_le_mono [OF assms, of 1000000000] by simp
  then have "real 1 \<le> real (d div 1000000000)" by (simp only: of_nat_le_iff)
  then have "real 1 \<le> fl64 (real (d div 1000000000))" by (rule f64.nat_le_fl) simp
  moreover have "0 \<le> fl64 (real (d mod 1000000000) / 1000000000)" by (rule f64.fl_nonneg) simp
  ultimately have "real 1 \<le> fl64 (real (d div 1000000000)) + fl64 (real (d mod 1000000000) / 1000000000)" by simp
  then have "real 1 \<le> as_secs_f64 d" unfolding as_secs_f64_def by (rule f64.nat_le_fl) simp
  then show ?thesis by simp
qed

lemma lb_inv_refill:
  assumes "lb_inv b"
  shows "lb_inv (lb_refill now b)"
proof -
  let ?add = "fl64 (as_secs_f64 (now - lb_last b) * lb_refill_per_sec b)"
  have "0 \<le> as_secs_f64 (now - lb_last b) * lb_refill_per_sec b"
    using as_secs_f64_nonneg assms by (simp add: lb_inv_def)
  then have "0 \<le> ?add" by (rule f64.fl_nonneg)
  with assms have s: "0 \<le> lb_tokens b + ?add" by (simp add: lb_inv_def)
  then have "fl64 (fl64 (lb_tokens b + ?add)) = fl64 (lb_tokens b + ?add)" by (rule f64.fl_idem)
  moreover have "fl64 (real (unat (lb_capacity b))) = real (unat (lb_capacity b))"
    using f64.fl_nat [OF u32_le_53] .
  ultimately show ?thesis
    using assms f64.fl_nonneg [OF s] by (auto simp: lb_inv_def lb_refill_def Let_def min_def)
qed

lemma lb_refill_same [simp]:
  "lb_inv b \<Longrightarrow> lb_last b = now \<Longrightarrow> lb_refill now b = b"
  by (simp add: lb_refill_def lb_inv_def min_def)

lemma lb_inv_take: "lb_inv b \<Longrightarrow> lb_inv (snd (try_take now cost b))"
proof -
  assume "lb_inv b"
  note inv = lb_inv_refill [OF this, of now]
  let ?b = "lb_refill now b" and ?c = "real (unat (max cost 1))"
  show ?thesis
  proof (cases "?c \<le> lb_tokens ?b")
    case True
    then have d: "0 \<le> lb_tokens ?b - ?c" by simp
    have "lb_tokens ?b - ?c \<le> real (unat (lb_capacity ?b))"
      using inv real_unat_max_1 [of cost] unfolding lb_inv_def by linarith
    then have "fl64 (lb_tokens ?b - ?c) \<le> real (unat (lb_capacity ?b))"
      using d u32_le_53 by (intro f64.fl_le_nat)
    with True d f64.fl_nonneg [OF d] f64.fl_idem [OF d] inv show ?thesis
      by (simp add: try_take_def Let_def lb_inv_def)
  next
    case False
    with inv show ?thesis by (simp add: try_take_def Let_def)
  qed
qed

text \<open>What a bucket has to give at an instant; a take at that instant spends one of it or fails.\<close>

definition lb_avail :: "instant \<Rightarrow> LeakyBucket \<Rightarrow> real" where
  "lb_avail now b = lb_tokens (lb_refill now b)"

lemma lb_avail_le: "lb_inv b \<Longrightarrow> lb_avail now b \<le> real (unat (lb_capacity b))"
  by (simp add: lb_avail_def lb_refill_def Let_def)

lemma lb_last_refill [simp]: "lb_last (lb_refill now b) = now"
  by (simp add: lb_refill_def Let_def)

lemma lb_capacity_take [simp]: "lb_capacity (snd (try_take now c b)) = lb_capacity b"
  by (simp add: try_take_def lb_refill_def Let_def)

lemma take_one_iff: "fst (try_take now 1 b) = Inr () \<longleftrightarrow> 1 \<le> lb_avail now b"
  by (simp add: try_take_def lb_avail_def Let_def)

lemma take_one_avail:
  assumes "lb_inv b"
  shows "lb_avail now (snd (try_take now 1 b)) =
    (if 1 \<le> lb_avail now b then fl64 (lb_avail now b - 1) else lb_avail now b)"
proof -
  let ?b' = "snd (try_take now 1 b)"
  have "lb_last ?b' = now" by (simp add: try_take_def Let_def)
  then have "lb_refill now ?b' = ?b'" using lb_inv_take [OF assms] by simp
  then have "lb_avail now ?b' = lb_tokens ?b'" by (simp add: lb_avail_def)
  then show ?thesis by (simp add: try_take_def lb_avail_def Let_def)
qed

lemma take_one_spends:
  assumes "lb_inv b" and "fst (try_take now 1 b) = Inr ()" and "lb_avail now b \<le> real k" and "k \<le> 2 ^ 53"
  shows "0 < k" and "lb_avail now (snd (try_take now 1 b)) \<le> real (k - 1)"
proof -
  from assms(2) have ge: "1 \<le> lb_avail now b" by (simp add: take_one_iff)
  with assms(3) show k: "0 < k" by (cases k) auto
  then have "lb_avail now b - 1 \<le> real (k - 1)" using assms(3) by (simp add: of_nat_diff)
  then have "fl64 (lb_avail now b - 1) \<le> real (k - 1)" using ge assms(4) by (intro f64.fl_le_nat) auto
  then show "lb_avail now (snd (try_take now 1 b)) \<le> real (k - 1)"
    using ge by (simp add: take_one_avail [OF assms(1)])
qed

lemma take_one_le: "lb_inv b \<Longrightarrow> lb_avail now b \<le> real k \<Longrightarrow> k \<le> 2 ^ 53 \<Longrightarrow>
  lb_avail now (snd (try_take now 1 b)) \<le> real k"
proof (cases "fst (try_take now 1 b) = Inr ()")
  case True
  assume "lb_inv b" "lb_avail now b \<le> real k" "k \<le> 2 ^ 53"
  from take_one_spends [OF this(1) True this(2,3)] show ?thesis by linarith
next
  case False
  assume "lb_inv b" "lb_avail now b \<le> real k"
  with False show ?thesis by (simp add: take_one_avail take_one_iff)
qed

text \<open>With a cost of one token a refusal always asks for one second, and one second is enough.\<close>

lemma take_one_retry:
  assumes "lb_inv b" and "fst (try_take now 1 b) = Inl ra"
  shows "ra = 1"
proof -
  let ?b = "lb_refill now b"
  let ?m = "fl64 (1 - lb_tokens ?b)" and ?r = "lb_refill_per_sec ?b"
  note inv = lb_inv_refill [OF assms(1), of now]
  have lt: "lb_tokens ?b < 1" and ra: "ra = f64_as_u64 (max (of_int \<lceil>fl64 (?m / ?r)\<rceil>) 1)"
    using assms(2) by (auto simp: try_take_def Let_def split: if_splits)
  have "?m \<le> real 1" using inv lt by (intro f64.fl_le_nat) (auto simp: lb_inv_def)
  moreover have "0 \<le> ?m" using lt by (intro f64.fl_nonneg) simp
  ultimately have "0 \<le> ?m / ?r" "?m / ?r \<le> real 1"
    using inv by (auto simp: lb_inv_def divide_le_eq)
  then have "fl64 (?m / ?r) \<le> real 1" by (intro f64.fl_le_nat) auto
  then have "\<lceil>fl64 (?m / ?r)\<rceil> \<le> 1" by (simp add: ceiling_le_iff)
  then have "real_of_int \<lceil>fl64 (?m / ?r)\<rceil> \<le> 1" by (simp only: of_int_le_1_iff)
  then have "ra = f64_as_u64 1" unfolding ra by (simp only: max.absorb2)
  then show ?thesis by (simp add: f64_as_u64_def)
qed

lemma lb_avail_ge:
  assumes "lb_inv b" and "real n \<le> lb_tokens b" and "n \<le> unat (lb_capacity b)"
  shows "real n \<le> lb_avail now b"
proof -
  have "0 \<le> as_secs_f64 (now - lb_last b) * lb_refill_per_sec b"
    using as_secs_f64_nonneg assms(1) by (simp add: lb_inv_def)
  then have "real n \<le> lb_tokens b + fl64 (as_secs_f64 (now - lb_last b) * lb_refill_per_sec b)"
    using assms(2) f64.fl_nonneg [of "as_secs_f64 (now - lb_last b) * lb_refill_per_sec b"] by simp
  moreover have "n \<le> 2 ^ 53" using assms(3) u32_le_53 [of "lb_capacity b"] by simp
  moreover have "real n \<le> real (unat (lb_capacity b))" using assms(3) by (simp only: of_nat_le_iff)
  ultimately show ?thesis using f64.nat_le_fl by (simp add: lb_avail_def lb_refill_def Let_def)
qed

lemma take_one_new: "fst (try_take now 1 (LeakyBucket_new t c r)) = Inr ()"
proof -
  have "real (unat (max c 1)) \<le> lb_avail now (LeakyBucket_new t c r)"
    by (rule lb_avail_ge [OF lb_inv_new]) (simp_all add: LeakyBucket_new_def Let_def)
  with real_unat_max_1 [of c] show ?thesis by (simp add: take_one_iff)
qed

lemma take_one_after_second:
  assumes "lb_inv b" and "lb_last b + 1000000000 \<le> now"
  shows "fst (try_take now 1 b) = Inr ()"
proof -
  let ?s = "as_secs_f64 (now - lb_last b)" and ?r = "lb_refill_per_sec b"
  have "1 \<le> ?s" using assms(2) by (intro as_secs_f64_ge_1) simp
  moreover have "1 \<le> ?r" using assms(1) by (simp add: lb_inv_def)
  ultimately have "1 * 1 \<le> ?s * ?r" by (intro mult_mono) auto
  then have "real 1 \<le> fl64 (?s * ?r)" by (intro f64.nat_le_fl) auto
  then have "real 1 \<le> fl64 (lb_tokens b + fl64 (?s * ?r))"
    using assms(1) by (intro f64.nat_le_fl) (auto simp: lb_inv_def)
  moreover have "1 \<le> real (unat (lb_capacity b))"
    using assms(1) word_neq_0_unat [of "lb_capacity b"] unfolding lb_inv_def
    by (metis One_nat_def Suc_leI of_nat_1 of_nat_le_iff)
  ultimately show ?thesis by (simp add: take_one_iff lb_avail_def lb_refill_def Let_def)
qed

lemma take_one_second:
  "fst (try_take now' 1 (snd (try_take now 1 (LeakyBucket_new t 200 100)))) = Inr ()"
proof -
  let ?b = "LeakyBucket_new t 200 100"
  have c: "unat (lb_capacity ?b) = 200" "lb_tokens ?b = real 200" by (simp_all add: LeakyBucket_new_def Let_def unat_max)
  have inv: "lb_inv ?b" by (rule lb_inv_new)
  have "real 200 \<le> lb_avail now ?b" by (rule lb_avail_ge [OF inv]) (simp_all add: c)
  then have "real 1 \<le> fl64 (lb_avail now ?b - 1)" by (intro f64.nat_le_fl) auto
  then have "real 1 \<le> lb_tokens (snd (try_take now 1 ?b))"
    using \<open>real 200 \<le> lb_avail now ?b\<close> by (simp add: try_take_def lb_avail_def Let_def)
  then have "real 1 \<le> lb_avail now' (snd (try_take now 1 ?b))"
    by (rule lb_avail_ge [OF lb_inv_take [OF inv]]) (simp add: c)
  then show ?thesis by (simp add: take_one_iff)
qed

section \<open>Lemmas on the defender\<close>

text \<open>The bucket of an address, the one it would get included.\<close>

definition ip_bucket :: "instant \<Rightarrow> IpAddr \<Rightarrow> HandshakeDefender \<Rightarrow> LeakyBucket" where
  "ip_bucket now ip d =
     (case hd_per_ip d ip of
        Some b \<Rightarrow> b
      | None \<Rightarrow> LeakyBucket_new now (hs_per_ip_burst (hd_cfg d)) (hs_per_ip_rps (hd_cfg d)))"

lemma hd_check_enabled:
  assumes "hs_enabled (hd_cfg d)" and "hd_check shard now ip d = (r, d')"
  shows "r \<noteq> CheckOk"
    and "fst (try_take now 1 (hd_global d)) = Inr () \<Longrightarrow> shard ip \<in> hd_held d \<Longrightarrow> r = CheckHang"
    and "fst (try_take now 1 (hd_global d)) = Inr () \<Longrightarrow> fst (try_take now 1 (ip_bucket now ip d)) = Inr () \<Longrightarrow>
      r = CheckHang \<and> shard ip \<in> hd_held d'"
    and "hd_held d \<subseteq> hd_held d'" and "hd_cfg d' = hd_cfg d"
  using assms
  by (auto simp: hd_check_def ip_bucket_def Let_def case_prod_unfold split: sum.splits if_splits option.splits)

lemma hd_check_hang_holds:
  assumes "hs_enabled (hd_cfg d)" and "fst (hd_check shard now ip d) = CheckHang"
  shows "shard ip \<in> hd_held (snd (hd_check shard now ip d))"
  using assms by (auto simp: hd_check_def Let_def case_prod_unfold split: sum.splits if_splits option.splits)

lemma hd_check_global:
  assumes "hs_enabled (hd_cfg d)"
  shows "hd_global (snd (hd_check shard now ip d)) = snd (try_take now 1 (hd_global d))"
  using assms by (auto simp: hd_check_def Let_def case_prod_unfold split: sum.splits if_splits option.splits)

text \<open>The first check of an enabled defender, whenever it comes, is admitted by both buckets.\<close>

lemma hd_check_first:
  assumes "hs_enabled cfg"
  shows "fst (hd_check shard now ip (HandshakeDefender_new t cfg)) = CheckHang"
  using assms take_one_new [of now t] take_one_new [of now now]
  by (auto simp: hd_check_def HandshakeDefender_new_def Let_def case_prod_unfold split: sum.splits)

section \<open>Runs of a bucket\<close>

text \<open>The states a bucket gets into; the clock, \<open>t\<close> at its last use, never goes back.\<close>

inductive lb_reach :: "u32 \<Rightarrow> u32 \<Rightarrow> instant \<Rightarrow> LeakyBucket \<Rightarrow> bool" for cap rps where
  lb_reach_new: "lb_reach cap rps now (LeakyBucket_new now cap rps)"
| lb_reach_take: "lb_reach cap rps t b \<Longrightarrow> t \<le> now \<Longrightarrow> lb_reach cap rps now (snd (try_take now cost b))"

lemma LeakyBucket_new_capacity [simp]: "lb_capacity (LeakyBucket_new now c r) = max c 1"
  by (simp add: LeakyBucket_new_def Let_def)

lemma lb_last_take [simp]: "lb_last (snd (try_take now c b)) = now"
  by (simp add: try_take_def Let_def)

lemma LeakyBucket_new_last [simp]: "lb_last (LeakyBucket_new now c r) = now"
  by (simp add: LeakyBucket_new_def Let_def)

lemma lb_reach_inv: "lb_reach cap rps t b \<Longrightarrow> lb_inv b \<and> lb_capacity b = max cap 1 \<and> lb_last b \<le> t"
  by (induction rule: lb_reach.induct) (auto simp: lb_inv_new lb_inv_take)

text \<open>How many of \<open>n\<close> requests at one instant are granted.\<close>

fun lb_grants :: "instant \<Rightarrow> nat \<Rightarrow> LeakyBucket \<Rightarrow> nat" where
  "lb_grants now 0 b = 0"
| "lb_grants now (Suc n) b =
     (case try_take now 1 b of (r, b) \<Rightarrow> (if r = Inr () then 1 else 0) + lb_grants now n b)"

lemma lb_grants_le:
  assumes "lb_inv b" and "lb_avail now b \<le> real k" and "k \<le> 2 ^ 53"
  shows "lb_grants now n b \<le> k"
  using assms
proof (induction n arbitrary: b k)
  case (Suc n)
  note inv = lb_inv_take [OF Suc.prems(1), of now 1]
  show ?case
  proof (cases "fst (try_take now 1 b) = Inr ()")
    case True
    note sp = take_one_spends [OF Suc.prems(1) True Suc.prems(2,3)]
    have "lb_grants now n (snd (try_take now 1 b)) \<le> k - 1"
      by (rule Suc.IH [OF inv sp(2)]) (use Suc.prems(3) in simp)
    with True sp(1) show ?thesis by (simp add: case_prod_unfold)
  next
    case False
    with Suc.IH [OF inv take_one_le [OF Suc.prems] Suc.prems(3)] show ?thesis by (simp add: case_prod_unfold)
  qed
qed simp

lemma lb_grants_eq:
  assumes "lb_inv b" and "lb_avail now b = real k" and "k \<le> 2 ^ 53"
  shows "lb_grants now n b = min n k"
  using assms
proof (induction n arbitrary: b k)
  case (Suc n)
  note inv = lb_inv_take [OF Suc.prems(1), of now 1]
  show ?case
  proof (cases k)
    case 0
    then have "fst (try_take now 1 b) \<noteq> Inr ()" "lb_avail now (snd (try_take now 1 b)) = real 0"
      using Suc.prems(2) by (simp_all add: take_one_iff take_one_avail [OF Suc.prems(1)])
    with Suc.IH [OF inv, of 0] 0 show ?thesis by (simp add: case_prod_unfold)
  next
    case (Suc m)
    have "lb_avail now (snd (try_take now 1 b)) = real m"
      using Suc \<open>lb_avail now b = real k\<close> \<open>k \<le> 2 ^ 53\<close> f64.fl_nat [of m] by (simp add: take_one_avail [OF Suc.prems(1)])
    moreover have "fst (try_take now 1 b) = Inr ()" using Suc \<open>lb_avail now b = real k\<close> by (simp add: take_one_iff)
    ultimately show ?thesis using Suc.IH [OF inv, of m] Suc \<open>k \<le> 2 ^ 53\<close> by (simp add: case_prod_unfold)
  qed
qed simp

lemma lb_avail_new: "lb_avail now (LeakyBucket_new now c r) = real (unat (max c 1))"
proof -
  have "lb_refill now (LeakyBucket_new now c r) = LeakyBucket_new now c r"
    by (rule lb_refill_same [OF lb_inv_new]) (simp add: LeakyBucket_new_def Let_def)
  then show ?thesis by (simp add: lb_avail_def) (simp add: LeakyBucket_new_def Let_def)
qed

section \<open>Properties\<close>

text \<open>
  C32: The burst of a leaky bucket, in its \<open>f64\<close> arithmetic.  Whatever has been taken before, of any
  number of one-token requests at the same instant at most the burst (at least one) are granted, and
  a new bucket grants exactly the first ones up to its burst.
\<close>

theorem leaky_bucket_burst:
  assumes "lb_reach cap rps t b"
  shows "lb_grants now n b \<le> unat (max cap 1)
    \<and> lb_grants now n (LeakyBucket_new now cap rps) = min n (unat (max cap 1))"
proof -
  have inv: "lb_inv b" and cap: "lb_capacity b = max cap 1" using lb_reach_inv [OF assms] by blast+
  have "lb_grants now n b \<le> unat (lb_capacity b)" by (rule lb_grants_le [OF inv lb_avail_le [OF inv] u32_le_53])
  then show ?thesis
    using lb_grants_eq [OF lb_inv_new lb_avail_new u32_le_53] by (simp add: cap)
qed

theorem leaky_bucket_burst_witness:
  "lb_grants 7 1000 (snd (try_take 5 1 (LeakyBucket_new 0 50 10))) \<le> 50 \<and> lb_grants 7 1000 (LeakyBucket_new 7 50 10) = 50"
proof -
  have "lb_reach 50 10 5 (snd (try_take 5 1 (LeakyBucket_new 0 50 10)))"
    by (rule lb_reach_take [OF lb_reach_new]) simp
  moreover have "unat (max 50 1 :: u32) = 50" by (simp add: unat_max)
  ultimately show ?thesis using leaky_bucket_burst [of 50 10 5 _ 7 1000] by simp
qed

text \<open>
  C33: The \<open>Retry-After\<close> of a refusal is always one second, and it is truthful: a bucket that refused a
  token grants one a second or more later, whatever its rate.
\<close>

theorem retry_after_truthful:
  assumes "lb_reach cap rps t b" and "t \<le> now" and "try_take now 1 b = (Inl ra, b')"
  shows "ra = 1 \<and> retry_after_header_secs ra = (''1'', 1)
    \<and> (now + 1000000000 \<le> now' \<longrightarrow> fst (try_take now' 1 b') = Inr ())"
proof -
  have inv: "lb_inv b" using lb_reach_inv [OF assms(1)] by blast
  have ra: "ra = 1" using take_one_retry [OF inv] assms(3) by (metis fst_conv)
  have b': "lb_inv b'" "lb_last b' = now" using lb_inv_take [OF inv, of now 1] lb_last_take [of now 1 b] assms(3) by simp_all
  have "show_nat 1 = ''1''" by code_simp
  with ra b' take_one_after_second [OF b'(1)] show ?thesis by (simp add: retry_after_header_secs_def)
qed

theorem retry_after_truthful_witness:
  "\<exists>b b'. lb_reach 1 10 5 b \<and> try_take 5 1 b = (Inl 1, b') \<and> fst (try_take 1000000005 1 b') = Inr ()"
proof -
  let ?n = "LeakyBucket_new 5 1 10"
  let ?b = "snd (try_take 5 1 ?n)"
  have reach: "lb_reach 1 10 5 ?b" by (rule lb_reach_take [OF lb_reach_new]) simp
  have "lb_avail 5 ?b = 0" using lb_avail_new [of 5 1 10] by (simp add: take_one_avail [OF lb_inv_new])
  then have "fst (try_take 5 1 ?b) \<noteq> Inr ()" by (simp add: take_one_iff)
  then obtain ra b' where t: "try_take 5 1 ?b = (Inl ra, b')" by (cases "try_take 5 1 ?b"; cases "fst (try_take 5 1 ?b)") auto
  from retry_after_truthful [OF reach _ t, of 1000000005] reach t show ?thesis by auto
qed

end
