(* ===== verification/Metrics.thy ===== *)
theory Metrics
  imports Ws_Prelude "HOL-Library.Multiset"
begin

text \<open>
  The metrics registry (\<open>crates/wsprism-gateway/src/obs/metrics.rs\<close>): counters, gauges and
  histograms keyed by a sorted label list, the registry of the gateway with its draining flag, and
  the Prometheus text rendering.  The iteration order of the tables is an argument of the renderers.
\<close>

type_synonym labels = "(string \<times> string) list"
type_synonym label_order = "labels set \<Rightarrow> labels list"

abbreviation bslash :: char where "bslash \<equiv> CHR 0x5C"
abbreviation dquote :: char where "dquote \<equiv> CHR 0x22"
abbreviation newline :: char where "newline \<equiv> CHR 0x0A"

section \<open>Text\<close>

text \<open>\<open>str::replace\<close> with a character pattern, and decimal \<open>Display\<close> of signed integers.\<close>

definition replace_char :: "char \<Rightarrow> string \<Rightarrow> string \<Rightarrow> string" where
  "replace_char c r s = concat (map (\<lambda>x. if x = c then r else [x]) s)"

definition escape_label :: "string \<Rightarrow> string" where
  "escape_label v =
     replace_char newline [bslash, CHR ''n'']
       (replace_char dquote [bslash, dquote] (replace_char bslash [bslash, bslash] v))"

definition show_i64 :: "u64 \<Rightarrow> string" where
  "show_i64 w =
     (if sint w < 0 then ''-'' @ show_nat (nat (- sint w)) else show_nat (nat (sint w)))"

fun join :: "string \<Rightarrow> string list \<Rightarrow> string" where
  "join sep [] = []"
| "join sep [x] = x"
| "join sep (x # y # xs) = x @ sep @ join sep (y # xs)"

definition label_pair :: "string \<times> string \<Rightarrow> string" where
  "label_pair kv = fst kv @ CHR ''='' # dquote # escape_label (snd kv) @ [dquote]"

definition label_str :: "labels \<Rightarrow> string" where
  "label_str key = join '','' (map label_pair key)"

definition writeln :: "string \<Rightarrow> string \<Rightarrow> string" where
  "writeln out line = out @ line @ [newline]"

section \<open>Counters\<close>

record CounterVec =
  cv_map :: "labels \<rightharpoonup> u64"

definition CounterVec_default :: CounterVec where
  "CounterVec_default = \<lparr>cv_map = Map.empty\<rparr>"

definition CounterVec_add :: "labels \<Rightarrow> u64 \<Rightarrow> CounterVec \<Rightarrow> CounterVec" where
  "CounterVec_add ls v c =
     (let key = sort ls;
          counter = (case cv_map c key of None \<Rightarrow> 0 | Some n \<Rightarrow> n)
      in c\<lparr>cv_map := (cv_map c)(key \<mapsto> counter + v)\<rparr>)"

definition CounterVec_inc :: "labels \<Rightarrow> CounterVec \<Rightarrow> CounterVec" where
  "CounterVec_inc ls c = CounterVec_add ls 1 c"

definition CounterVec_render :: "label_order \<Rightarrow> string \<Rightarrow> CounterVec \<Rightarrow> string \<Rightarrow> string" where
  "CounterVec_render it name c out =
     fold (\<lambda>key out. case cv_map c key of
             None \<Rightarrow> out
           | Some val \<Rightarrow> writeln out (name @ ''{'' @ label_str key @ ''} '' @ show_nat (unat val)))
       (it (dom (cv_map c))) (writeln out (''# TYPE '' @ name @ '' counter''))"

section \<open>Gauges\<close>

text \<open>An \<open>AtomicI64\<close> is a 64-bit word read as a signed number; \<open>fetch_add\<close> wraps.\<close>

record GaugeVec =
  gv_map :: "labels \<rightharpoonup> u64"

definition GaugeVec_default :: GaugeVec where
  "GaugeVec_default = \<lparr>gv_map = Map.empty\<rparr>"

definition GaugeVec_add :: "labels \<Rightarrow> u64 \<Rightarrow> GaugeVec \<Rightarrow> GaugeVec" where
  "GaugeVec_add ls v g =
     (let key = sort ls;
          gauge = (case gv_map g key of None \<Rightarrow> 0 | Some n \<Rightarrow> n)
      in g\<lparr>gv_map := (gv_map g)(key \<mapsto> gauge + v)\<rparr>)"

definition GaugeVec_inc :: "labels \<Rightarrow> GaugeVec \<Rightarrow> GaugeVec" where
  "GaugeVec_inc ls g = GaugeVec_add ls 1 g"

definition GaugeVec_dec :: "labels \<Rightarrow> GaugeVec \<Rightarrow> GaugeVec" where
  "GaugeVec_dec ls g = GaugeVec_add ls (- 1) g"

definition GaugeVec_render :: "label_order \<Rightarrow> string \<Rightarrow> GaugeVec \<Rightarrow> string \<Rightarrow> string" where
  "GaugeVec_render it name g out =
     fold (\<lambda>key out. case gv_map g key of
             None \<Rightarrow> out
           | Some val \<Rightarrow> writeln out (name @ ''{'' @ label_str key @ ''} '' @ show_i64 val))
       (it (dom (gv_map g))) (writeln out (''# TYPE '' @ name @ '' gauge''))"

section \<open>Histograms\<close>

definition BUCKETS_MICROS :: "u64 list" where
  "BUCKETS_MICROS = [100, 500, 1000, 5000, 10000, 50000, 100000, 500000, 1000000]"

record AtomicHistogram =
  hist_count :: u64
  hist_sum :: u64
  hist_buckets :: "u64 list"

definition AtomicHistogram_default :: AtomicHistogram where
  "AtomicHistogram_default = \<lparr>hist_count = 0, hist_sum = 0, hist_buckets = [0, 0, 0, 0, 0, 0, 0, 0, 0]\<rparr>"

text \<open>The bucket array has as many elements as the bounds, so the index is always in range.\<close>

definition hist_observe :: "nat \<Rightarrow> AtomicHistogram \<Rightarrow> AtomicHistogram" where
  "hist_observe duration h =
     (let micros = of_nat (duration div 1000) :: u64;
          h = h\<lparr>hist_count := hist_count h + 1\<rparr>;
          h = h\<lparr>hist_sum := hist_sum h + micros\<rparr>
      in h\<lparr>hist_buckets :=
             fold (\<lambda>(i, b) bs. if micros \<le> b then bs[i := bs ! i + 1] else bs)
               (enumerate 0 BUCKETS_MICROS) (hist_buckets h)\<rparr>)"

record HistogramVec =
  hv_map :: "labels \<rightharpoonup> AtomicHistogram"

definition HistogramVec_default :: HistogramVec where
  "HistogramVec_default = \<lparr>hv_map = Map.empty\<rparr>"

definition observe :: "labels \<Rightarrow> nat \<Rightarrow> HistogramVec \<Rightarrow> HistogramVec" where
  "observe ls duration v =
     (let key = sort ls;
          hist = (case hv_map v key of None \<Rightarrow> AtomicHistogram_default | Some h \<Rightarrow> h)
      in v\<lparr>hv_map := (hv_map v)(key \<mapsto> hist_observe duration hist)\<rparr>)"

definition histogram_series :: "string \<Rightarrow> labels \<Rightarrow> AtomicHistogram \<Rightarrow> string \<Rightarrow> string" where
  "histogram_series name key hist out =
     (let ls = label_str key;
          prefix = (if ls = [] then [] else ls @ '','');
          out = fold (\<lambda>(i, le) out.
                   writeln out (name @ ''_bucket{'' @ prefix @ ''le='' @ [dquote] @ show_nat (unat le)
                     @ [dquote] @ ''} '' @ show_nat (unat (hist_buckets hist ! i))))
                 (enumerate 0 BUCKETS_MICROS) out;
          count = show_nat (unat (hist_count hist));
          out = writeln out (name @ ''_bucket{'' @ prefix @ ''le='' @ [dquote] @ ''+Inf'' @ [dquote]
                  @ ''} '' @ count);
          out = writeln out (name @ ''_sum{'' @ ls @ ''} '' @ show_nat (unat (hist_sum hist)))
      in writeln out (name @ ''_count{'' @ ls @ ''} '' @ count))"

definition HistogramVec_render :: "label_order \<Rightarrow> string \<Rightarrow> HistogramVec \<Rightarrow> string \<Rightarrow> string" where
  "HistogramVec_render it name v out =
     fold (\<lambda>key out. case hv_map v key of None \<Rightarrow> out | Some hist \<Rightarrow> histogram_series name key hist out)
       (it (dom (hv_map v))) (writeln out (''# TYPE '' @ name @ '' histogram''))"

section \<open>The registry\<close>

record GatewayMetrics =
  gm_ws_upgrades :: CounterVec
  gm_ws_active_sessions :: GaugeVec
  gm_policy_decisions :: CounterVec
  gm_handshake_rejections :: CounterVec
  gm_dispatch_duration :: HistogramVec
  gm_decode_errors :: CounterVec
  gm_service_errors :: CounterVec
  gm_writer_timeouts :: CounterVec
  gm_unknown_service_errors :: CounterVec
  gm_draining :: bool

definition GatewayMetrics_default :: GatewayMetrics where
  "GatewayMetrics_default =
     \<lparr>gm_ws_upgrades = CounterVec_default, gm_ws_active_sessions = GaugeVec_default,
      gm_policy_decisions = CounterVec_default, gm_handshake_rejections = CounterVec_default,
      gm_dispatch_duration = HistogramVec_default, gm_decode_errors = CounterVec_default,
      gm_service_errors = CounterVec_default, gm_writer_timeouts = CounterVec_default,
      gm_unknown_service_errors = CounterVec_default, gm_draining = False\<rparr>"

definition set_draining :: "GatewayMetrics \<Rightarrow> GatewayMetrics" where
  "set_draining g = g\<lparr>gm_draining := True\<rparr>"

definition is_draining :: "GatewayMetrics \<Rightarrow> bool" where
  "is_draining g = gm_draining g"

definition metrics_render :: "label_order \<Rightarrow> GatewayMetrics \<Rightarrow> (string \<times> u64) list \<Rightarrow> string" where
  "metrics_render it g extra =
     (let out = CounterVec_render it ''wsprism_ws_upgrades_total'' (gm_ws_upgrades g) [];
          out = GaugeVec_render it ''wsprism_ws_sessions_active'' (gm_ws_active_sessions g) out;
          out = CounterVec_render it ''wsprism_policy_decisions_total'' (gm_policy_decisions g) out;
          out = CounterVec_render it ''wsprism_handshake_rejections_total'' (gm_handshake_rejections g) out;
          out = HistogramVec_render it ''wsprism_dispatch_duration_micros'' (gm_dispatch_duration g) out;
          out = CounterVec_render it ''wsprism_decode_errors_total'' (gm_decode_errors g) out;
          out = CounterVec_render it ''wsprism_service_errors_total'' (gm_service_errors g) out;
          out = CounterVec_render it ''wsprism_writer_timeouts_total'' (gm_writer_timeouts g) out;
          out = CounterVec_render it ''wsprism_unknown_service_total'' (gm_unknown_service_errors g) out;
          out = writeln out (''# TYPE wsprism_draining gauge'' @ [newline] @ ''wsprism_draining ''
                  @ (if is_draining g then ''1'' else ''0''))
      in fold (\<lambda>(k, v) out. writeln out (k @ '' '' @ show_nat (unat v))) extra out)"

section \<open>The contract of a labelled table\<close>

text \<open>
  A table of series: an update touches only the series of its labels, whose identity does not
  depend on the order in which the labels are given.
\<close>

lemma sort_sort [simp]: "sort (sort ls) = sort (ls :: 'a::linorder list)"
  by (simp add: sorted_sort_id)

lemma sort_eq_iff: "sort ls = sort ls' \<longleftrightarrow> mset ls = mset (ls' :: 'a::linorder list)"
  by (metis properties_for_sort sorted_sort mset_sort)

locale labelled_series =
  fixes upd :: "labels \<Rightarrow> 'd \<Rightarrow> 'm \<Rightarrow> 'm"
    and series :: "'m \<Rightarrow> labels \<Rightarrow> 'v option"
    and start :: 'v
    and comb :: "'d \<Rightarrow> 'v \<Rightarrow> 'v"
  assumes series_upd: "series (upd ls d m) k =
      (if k = sort ls then Some (comb d (case series m k of None \<Rightarrow> start | Some v \<Rightarrow> v)) else series m k)"
    and upd_sorted: "upd ls d m = upd (sort ls) d m"
begin

lemma upd_order: "mset ls = mset ls' \<Longrightarrow> upd ls d m = upd ls' d m"
  by (metis upd_sorted sort_eq_iff)

lemma series_run:
  "series (fold (\<lambda>(ls, d). upd ls d) us m) k =
     (let ds = map snd (filter (\<lambda>u. sort (fst u) = k) us) in
      if ds = [] then series m k
      else Some (fold comb ds (case series m k of None \<Rightarrow> start | Some v \<Rightarrow> v)))"
proof (induction us arbitrary: m)
  case (Cons u us)
  then show ?case by (auto simp: series_upd Let_def case_prod_unfold)
qed (simp add: Let_def)

end

interpretation cvs: labelled_series CounterVec_add cv_map 0 "\<lambda>v n. n + v"
  by unfold_locales (simp_all add: CounterVec_add_def Let_def)

interpretation gvs: labelled_series GaugeVec_add gv_map 0 "\<lambda>v n. n + v"
  by unfold_locales (simp_all add: GaugeVec_add_def Let_def)

interpretation hvs: labelled_series observe hv_map AtomicHistogram_default hist_observe
  by unfold_locales (simp_all add: observe_def Let_def)

text \<open>A fold of additions is a sum.\<close>

lemma fold_add_sum: "fold (\<lambda>v n. n + v) vs a = a + sum_list (vs :: 'a::comm_monoid_add list)"
  by (induction vs arbitrary: a) (simp_all add: ac_simps)

section \<open>Lemmas on histograms\<close>

definition micros_of :: "nat \<Rightarrow> u64" where
  "micros_of duration = of_nat (duration div 1000)"

lemma fold_bump_buckets:
  assumes "n + length ps \<le> length bs"
  shows "fold (\<lambda>(i, b) bs. if m \<le> b then bs[i := bs ! i + 1] else bs) (enumerate n ps) bs =
    take n bs @ map2 (\<lambda>b c. if m \<le> b then c + 1 else c) ps (drop n bs) @ drop (n + length ps) (bs :: u64 list)"
  using assms
proof (induction ps arbitrary: n bs)
  case Nil
  then show ?case by simp
next
  case (Cons p ps)
  let ?c = "if m \<le> p then bs ! n + 1 else bs ! n"
  from Cons.prems have n: "n < length bs" by simp
  have step: "(if m \<le> p then bs[n := bs ! n + 1] else bs) = bs[n := ?c]" by simp
  from n have d: "drop n bs = bs ! n # drop (Suc n) bs" by (simp add: Cons_nth_drop_Suc)
  from n have t: "take (Suc n) (bs[n := ?c]) = take n bs @ [?c]"
    by (simp add: take_Suc_conv_app_nth)
  have "fold (\<lambda>(i, b) bs. if m \<le> b then bs[i := bs ! i + 1] else bs) (enumerate n (p # ps)) bs =
    fold (\<lambda>(i, b) bs. if m \<le> b then bs[i := bs ! i + 1] else bs) (enumerate (Suc n) ps) (bs[n := ?c])"
    by (simp add: step)
  also have "\<dots> = take (Suc n) (bs[n := ?c])
      @ map2 (\<lambda>b c. if m \<le> b then c + 1 else c) ps (drop (Suc n) (bs[n := ?c]))
      @ drop (Suc n + length ps) (bs[n := ?c])"
    by (rule Cons.IH) (use Cons.prems in simp)
  finally show ?case by (simp only: t) (simp add: d)
qed

lemma hist_observe_buckets:
  assumes "length (hist_buckets h) = 9" and "i < 9"
  shows "length (hist_buckets (hist_observe d h)) = 9"
    and "hist_buckets (hist_observe d h) ! i =
      hist_buckets h ! i + (if micros_of d \<le> BUCKETS_MICROS ! i then 1 else 0)"
proof -
  have l: "length BUCKETS_MICROS = 9" by (simp add: BUCKETS_MICROS_def)
  have "hist_buckets (hist_observe d h) =
    map2 (\<lambda>b c. if micros_of d \<le> b then c + 1 else c) BUCKETS_MICROS (hist_buckets h)"
    using fold_bump_buckets [of 0 BUCKETS_MICROS "hist_buckets h" "micros_of d"] assms(1) l
    by (simp add: hist_observe_def micros_of_def Let_def)
  with assms l show "length (hist_buckets (hist_observe d h)) = 9"
    and "hist_buckets (hist_observe d h) ! i =
      hist_buckets h ! i + (if micros_of d \<le> BUCKETS_MICROS ! i then 1 else 0)"
    by simp_all
qed

lemma hist_run:
  assumes "length (hist_buckets h) = 9" and "i < 9"
  shows "hist_count (fold hist_observe ds h) = hist_count h + of_nat (length ds) \<and>
    hist_sum (fold hist_observe ds h) = hist_sum h + sum_list (map micros_of ds) \<and>
    hist_buckets (fold hist_observe ds h) ! i =
      hist_buckets h ! i + of_nat (length (filter (\<lambda>d. micros_of d \<le> BUCKETS_MICROS ! i) ds))"
  using assms(1)
proof (induction ds arbitrary: h)
  case (Cons d ds)
  have c: "hist_count (hist_observe d h) = hist_count h + 1"
    "hist_sum (hist_observe d h) = hist_sum h + micros_of d"
    by (simp_all add: hist_observe_def micros_of_def Let_def)
  note b = hist_observe_buckets [OF Cons.prems assms(2), of d]
  show ?case using Cons.IH [OF b(1)] b(2) c by (simp add: algebra_simps)
qed simp

lemma AtomicHistogram_default_simps [simp]:
  "hist_count AtomicHistogram_default = 0" "hist_sum AtomicHistogram_default = 0"
  "length (hist_buckets AtomicHistogram_default) = 9"
  "i < 9 \<Longrightarrow> hist_buckets AtomicHistogram_default ! i = 0"
proof -
  have "hist_buckets AtomicHistogram_default = replicate 9 0"
    by (simp add: AtomicHistogram_default_def numeral_eq_Suc)
  then show "i < 9 \<Longrightarrow> hist_buckets AtomicHistogram_default ! i = 0"
    and "length (hist_buckets AtomicHistogram_default) = 9" by simp_all
qed (simp_all add: AtomicHistogram_default_def)

lemma BUCKETS_MICROS_sorted: "i \<le> j \<Longrightarrow> j < 9 \<Longrightarrow> BUCKETS_MICROS ! i \<le> BUCKETS_MICROS ! j"
proof -
  assume "i \<le> j" "j < 9"
  moreover have "sorted BUCKETS_MICROS" "length BUCKETS_MICROS = 9"
    by (simp_all add: BUCKETS_MICROS_def)
  ultimately show ?thesis by (simp add: sorted_nth_mono)
qed

lemma length_filter_mono: "(\<And>x. P x \<Longrightarrow> Q x) \<Longrightarrow> length (filter P xs) \<le> length (filter Q xs)"
  by (induction xs) auto

section \<open>Lemmas on the rendered labels\<close>

text \<open>
  How a reader of the exposition format takes a label value back: up to the first quote that no
  backslash precedes.
\<close>

fun scan_value :: "string \<Rightarrow> (string \<times> string) option" where
  "scan_value [] = None"
| "scan_value (c # s) =
     (if c = dquote then Some ([], s)
      else if c = bslash then
        (case s of
           [] \<Rightarrow> None
         | e # s' \<Rightarrow> map_option (\<lambda>(v, r). ((if e = CHR ''n'' then newline else e) # v, r)) (scan_value s'))
      else map_option (\<lambda>(v, r). (c # v, r)) (scan_value s))"

definition escape_char :: "char \<Rightarrow> string" where
  "escape_char c =
     (if c = bslash then [bslash, bslash]
      else if c = dquote then [bslash, dquote]
      else if c = newline then [bslash, CHR ''n''] else [c])"

lemma escape_label_Cons [simp]: "escape_label (c # v) = escape_char c @ escape_label v"
  by (simp add: escape_label_def replace_char_def escape_char_def)

lemma escape_label_Nil [simp]: "escape_label [] = []"
  by (simp add: escape_label_def replace_char_def)

lemma scan_escape: "scan_value (escape_label v @ dquote # r) = Some (v, r)"
  by (induction v) (auto simp: escape_char_def)

lemma newline_escape: "newline \<notin> set (escape_label v)"
  by (induction v) (auto simp: escape_char_def)

lemma escape_inject:
  "escape_label v @ dquote # r = escape_label v' @ dquote # r' \<Longrightarrow> v = v' \<and> r = r'"
  by (metis scan_escape option.inject prod.inject)

text \<open>The label names of the gateway are literals of the source: none has an equals sign or a line break.\<close>

definition names_ok :: "labels \<Rightarrow> bool" where
  "names_ok key = list_all (\<lambda>(n, v). CHR ''='' \<notin> set n \<and> newline \<notin> set n) key"

lemma label_pair_inject:
  assumes "label_pair p @ r = label_pair p' @ r'" and "names_ok [p]" and "names_ok [p']"
  shows "p = p' \<and> r = r'"
proof -
  from assms have "fst p = fst p' \<and>
    dquote # escape_label (snd p) @ dquote # r = dquote # escape_label (snd p') @ dquote # r'"
    by (intro append_sep_inject [of _ "CHR ''=''"])
      (auto simp: label_pair_def names_ok_def case_prod_unfold)
  then show ?thesis using escape_inject [of "snd p" r "snd p'" r'] by (auto simp: prod_eq_iff)
qed

lemma label_str_simps [simp]:
  "label_str [] = []"
  "label_str (p # ps) = label_pair p @ (if ps = [] then [] else CHR '','' # label_str ps)"
  by (cases ps; simp add: label_str_def)+

lemma label_pair_not_Nil [simp]: "label_pair p \<noteq> []"
  by (simp add: label_pair_def)

lemma label_str_inject:
  "label_str key = label_str key' \<Longrightarrow> names_ok key \<Longrightarrow> names_ok key' \<Longrightarrow> key = key'"
proof (induction key arbitrary: key')
  case Nil
  then show ?case by (cases key') simp_all
next
  case (Cons p ps)
  then obtain p' ps' where k: "key' = p' # ps'" by (cases key') simp_all
  with Cons.prems have ok: "names_ok [p]" "names_ok [p']" "names_ok ps" "names_ok ps'"
    by (simp_all add: names_ok_def)
  have "p = p' \<and> (if ps = [] then [] else CHR '','' # label_str ps) =
    (if ps' = [] then [] else CHR '','' # label_str ps')"
    by (rule label_pair_inject [OF _ ok(1,2)]) (use Cons.prems(1) k in \<open>simp only: label_str_simps\<close>)
  with Cons.IH [OF _ ok(3,4)] k show ?case by (auto split: if_splits)
qed

lemma newline_label_str: "names_ok key \<Longrightarrow> newline \<notin> set (label_str key)"
  by (induction key) (auto simp: names_ok_def label_pair_def newline_escape)

section \<open>Properties\<close>

text \<open>
  After any sequence of updates a counter holds the (wrapping) sum of the amounts recorded under
  its labels, in whatever order each caller lists them, a gauge likewise with signed amounts, and
  a series that no caller touched does not exist.
\<close>

theorem series_hold_sums:
  "cv_map (fold (\<lambda>(ls, v). CounterVec_add ls v) us CounterVec_default) (sort ls) =
     (let vs = map snd (filter (\<lambda>u. mset (fst u) = mset ls) us) in
      if vs = [] then None else Some (sum_list vs)) \<and>
   gv_map (fold (\<lambda>(ls, v). GaugeVec_add ls v) us GaugeVec_default) (sort ls) =
     (let vs = map snd (filter (\<lambda>u. mset (fst u) = mset ls) us) in
      if vs = [] then None else Some (sum_list vs))"
  by (simp add: cvs.series_run gvs.series_run CounterVec_default_def GaugeVec_default_def
      sort_eq_iff fold_add_sum Let_def)

text \<open>
  C35: Histograms are cumulative: the series of some labels counts every observation recorded under
  them, sums their microseconds, and each bucket counts those not above its bound; with fewer than
  2^64 observations no count wraps, so the buckets increase up to the total count, as the
  exposition format demands of the bucket series and of the infinite bucket.
\<close>

theorem histogram_cumulative:
  assumes "hv_map (fold (\<lambda>(ls, d). observe ls d) us HistogramVec_default) (sort ls) = Some h"
    and "ds = map snd (filter (\<lambda>u. mset (fst u) = mset ls) us)"
    and "i \<le> j" and "j < 9" and "length us < 2 ^ 64"
  shows "unat (hist_count h) = length ds \<and>
    hist_sum h = sum_list (map micros_of ds) \<and>
    unat (hist_buckets h ! j) = length (filter (\<lambda>d. micros_of d \<le> BUCKETS_MICROS ! j) ds) \<and>
    hist_buckets h ! i \<le> hist_buckets h ! j \<and> hist_buckets h ! j \<le> hist_count h"
proof -
  have h: "h = fold hist_observe ds AtomicHistogram_default"
    using assms(1,2) by (simp add: hvs.series_run HistogramVec_default_def sort_eq_iff Let_def split: if_splits)
  define n where "n k = length (filter (\<lambda>d. micros_of d \<le> BUCKETS_MICROS ! k) ds)" for k
  have "length ds \<le> length us" using assms(2) by simp
  then have lt: "length ds < 2 ^ 64" using assms(5) by simp
  have bucket: "hist_buckets h ! k = of_nat (n k)" if "k < 9" for k
    using hist_run [of AtomicHistogram_default k ds] that by (simp add: h n_def)
  have count: "hist_count h = of_nat (length ds)" "hist_sum h = sum_list (map micros_of ds)"
    using hist_run [of AtomicHistogram_default 0 ds] by (simp_all add: h)
  have le: "n i \<le> n j" "n j \<le> length ds"
    using BUCKETS_MICROS_sorted [OF assms(3,4)] by (auto simp: n_def intro!: length_filter_mono)
  then have "unat (of_nat (n i) :: u64) = n i" "unat (of_nat (n j) :: u64) = n j"
    "unat (of_nat (length ds) :: u64) = length ds"
    using lt by (simp_all add: unat_of_nat take_bit_nat_eq_self)
  with le show ?thesis using assms(3,4) bucket [of i] bucket [of j] count
    unfolding n_def [symmetric] by (simp add: word_le_nat_alt)
qed

theorem histogram_cumulative_witness:
  "\<exists>h. hv_map (fold (\<lambda>(ls, d). observe ls d)
        [([(''t'', ''a''), (''l'', ''x'')], 150000), ([(''l'', ''x''), (''t'', ''a'')], 2000000000)]
        HistogramVec_default) [(''l'', ''x''), (''t'', ''a'')] = Some h \<and>
     unat (hist_count h) = 2 \<and> unat (hist_buckets h ! 1) = 1 \<and> hist_buckets h ! 0 \<le> hist_buckets h ! 1"
proof -
  let ?us = "[([(''t'', ''a''), (''l'', ''x'')], 150000), ([(''l'', ''x''), (''t'', ''a'')], 2000000000)]"
  let ?ls = "[(''l'', ''x''), (''t'', ''a'')]"
  have s: "sort ?ls = ?ls" by code_simp
  have f: "map snd (filter (\<lambda>u. mset (fst u) = mset ?ls) ?us) = [150000, 2000000000]"
    by (simp add: add_mset_commute)
  obtain h where h: "hv_map (fold (\<lambda>(ls, d). observe ls d) ?us HistogramVec_default) (sort ?ls) = Some h"
    using hvs.series_run [of ?us HistogramVec_default "sort ?ls"] unfolding sort_eq_iff f Let_def by simp
  from histogram_cumulative [OF h f [symmetric], of 0 1]
  have "unat (hist_count h) = 2 \<and> unat (hist_buckets h ! 1) = 1 \<and> hist_buckets h ! 0 \<le> hist_buckets h ! 1"
    by (simp add: micros_of_def BUCKETS_MICROS_def)
  with h s show ?thesis by auto
qed

text \<open>
  C36: Rendered label sets identify their series and stay on their line: two label lists whose names
  carry no equals sign render to the same text only when they are equal, whatever the values contain
  (quotes, backslashes, line breaks, commas), and the text has no line break.
\<close>

theorem label_str_identifies_series:
  assumes "names_ok key" and "names_ok key'"
  shows "(label_str key = label_str key' \<longleftrightarrow> key = key') \<and> newline \<notin> set (label_str key)"
  using assms label_str_inject newline_label_str by blast

theorem label_str_identifies_series_witness:
  "label_str [(''svc'', [dquote, newline])] \<noteq> label_str [(''svc'', [bslash, dquote, newline])] \<and>
   newline \<notin> set (label_str [(''svc'', [dquote, newline])])"
  using label_str_identifies_series [of "[(''svc'', [dquote, newline])]" "[(''svc'', [bslash, dquote, newline])]"]
  by (simp add: names_ok_def)

end
