(* ===== verification/App_State.thy ===== *)
theory App_State
  imports Services Policy_Engine Handshake Metrics
begin

text \<open>
  Shared application state (\<open>crates/wsprism-gateway/src/app_state.rs\<close>), tenant resolution
  (\<open>context/tenant.rs\<close>) and the operational endpoints (\<open>ops/mod.rs\<close>).  The state that the Rust code
  shares through \<open>Arc\<close>s is one record, passed through every operation that changes it.
\<close>

text \<open>
  What the gateway uses of code outside the repository: the iteration orders of the hash tables, the
  shard of an address in the table of the handshake limiter and the \<open>serde_json\<close> functions.
\<close>

record Externals =
  ex_iter :: iter_order
  ex_hot_iter :: "u8 set \<Rightarrow> u8 list"
  ex_label_iter :: label_order
  ex_shard :: "IpAddr \<Rightarrow> nat"
  ex_encode :: json_encoder
  ex_display :: "json \<Rightarrow> string"
  ex_send_req :: send_req_parser
  ex_envelope :: envelope_parser

record AppState =
  as_cfg :: GatewayConfig
  as_tenant_policy :: "string \<rightharpoonup> TenantPolicyRuntime"
  as_realtime :: Runtime
  as_dispatcher :: Dispatcher
  as_metrics :: GatewayMetrics
  as_handshake :: HandshakeDefender

definition FAIL_FAST_ON_MISMATCH :: bool where
  "FAIL_FAST_ON_MISMATCH = False"

fun compile_policies ::
  "instant \<Rightarrow> TenantConfig list \<Rightarrow> (string \<rightharpoonup> TenantPolicyRuntime) \<Rightarrow> (string \<rightharpoonup> TenantPolicyRuntime) result" where
  "compile_policies now [] m = Inr m"
| "compile_policies now (t # ts) m =
     (case TenantPolicyRuntime_new (tc_id t) (tl_max_frame_bytes (tc_limits t)) (tc_policy t) now of
        Inl e \<Rightarrow> Inl (BadRequest (''tenant policy compile failed (tenant='' @ tc_id t @ ''): '' @ error_to_string e))
      | Inr runtime \<Rightarrow> compile_policies now ts (m(tc_id t \<mapsto> runtime)))"

text \<open>The allowlist/dispatcher sanity check: warnings only, unless failing fast is compiled in.\<close>

fun check_ext_services :: "string list \<Rightarrow> string \<Rightarrow> string list \<Rightarrow> unit result" where
  "check_ext_services text_svcs tenant [] = Inr ()"
| "check_ext_services text_svcs tenant (rule # rules) =
     (case split_once (CHR '':'') rule of
        Some (svc, _) \<Rightarrow>
          if svc \<in> set [''room'', ''sys''] then check_ext_services text_svcs tenant rules
          else if svc \<notin> set text_svcs \<and> FAIL_FAST_ON_MISMATCH then
            Inl (BadRequest (''tenant '' @ tenant @ '' ext_allowlist references unregistered text service: '' @ svc))
          else check_ext_services text_svcs tenant rules
      | None \<Rightarrow> check_ext_services text_svcs tenant rules)"

fun check_hot_services :: "u8 list \<Rightarrow> string \<Rightarrow> string list \<Rightarrow> unit result" where
  "check_hot_services hot_svcs tenant [] = Inr ()"
| "check_hot_services hot_svcs tenant (rule # rules) =
     (case split_once (CHR '':'') rule of
        Some (sid_s, _) \<Rightarrow>
          (case parse_u8 sid_s of
             Some sid \<Rightarrow>
               if sid \<notin> set hot_svcs \<and> FAIL_FAST_ON_MISMATCH then
                 Inl (BadRequest (''tenant '' @ tenant @ '' hot_allowlist references unregistered hot service id: ''
                   @ show_nat (unat sid)))
               else check_hot_services hot_svcs tenant rules
           | None \<Rightarrow> check_hot_services hot_svcs tenant rules)
      | None \<Rightarrow> check_hot_services hot_svcs tenant rules)"

fun check_services :: "string list \<Rightarrow> u8 list \<Rightarrow> TenantConfig list \<Rightarrow> unit result" where
  "check_services text_svcs hot_svcs [] = Inr ()"
| "check_services text_svcs hot_svcs (t # ts) =
     and_then (check_ext_services text_svcs (tc_id t) (tp_ext_allowlist (tc_policy t))) (\<lambda>_.
     and_then (check_hot_services hot_svcs (tc_id t) (tp_hot_allowlist (tc_policy t))) (\<lambda>_.
       check_services text_svcs hot_svcs ts))"

definition builtin_dispatcher :: "Externals \<Rightarrow> Dispatcher" where
  "builtin_dispatcher ex =
     register_hot (EchoBinaryService (ex_iter ex) (ex_encode ex) 1)
       (register_text (ChatService (ex_iter ex) (ex_encode ex) (ex_send_req ex)) Dispatcher_new)"

definition AppState_new :: "Externals \<Rightarrow> instant \<Rightarrow> GatewayConfig \<Rightarrow> AppState result" where
  "AppState_new ex now cfg =
     (let metrics = GatewayMetrics_default;
          handshake = HandshakeDefender_new now (gw_handshake_limit (gc_gateway cfg))
      in and_then (compile_policies now (gc_tenants cfg) Map.empty) (\<lambda>tenant_policy.
           let dispatcher = builtin_dispatcher ex in
           and_then (check_services (registered_text_svcs (ex_iter ex) dispatcher)
                       (registered_hot_svcs (ex_hot_iter ex) dispatcher) (gc_tenants cfg)) (\<lambda>_.
             Inr \<lparr>as_cfg = cfg, as_tenant_policy = tenant_policy, as_realtime = Runtime_new,
                  as_dispatcher = dispatcher, as_metrics = metrics, as_handshake = handshake\<rparr>)))"

definition tenant_policy :: "AppState \<Rightarrow> string \<Rightarrow> TenantPolicyRuntime option" where
  "tenant_policy app tenant_id = as_tenant_policy app tenant_id"

definition resolve_ticket :: "string \<Rightarrow> string result" where
  "resolve_ticket ticket = (if ticket = ''dev'' then Inr dev_user else Inl AuthFailed)"

definition app_is_draining :: "AppState \<Rightarrow> bool" where
  "app_is_draining app = is_draining (as_metrics app)"

definition enter_draining :: "AppState \<Rightarrow> AppState" where
  "enter_draining app = app\<lparr>as_metrics := set_draining (as_metrics app)\<rparr>"

definition metrics_extra :: "AppState \<Rightarrow> (string \<times> u64) list" where
  "metrics_extra app =
     [(''wsprism_egress_drop_total'', egress_drop_count (as_realtime app)),
      (''wsprism_egress_send_fail_total'', egress_send_fail_count (as_realtime app))]"

section \<open>Tenant context\<close>

record SessionMeta =
  sm_tenant_id :: string
  sm_user_id :: string
  sm_session_id :: string

record TenantContext =
  tcx_meta :: SessionMeta
  tcx_policy :: TenantPolicyRuntime

definition resolve_tenant :: "AppState \<Rightarrow> string \<Rightarrow> TenantPolicyRuntime result" where
  "resolve_tenant app tenant_id =
     (case tenant_policy app tenant_id of
        None \<Rightarrow> Inl (BadRequest (''unknown tenant: '' @ tenant_id))
      | Some p \<Rightarrow> Inr p)"

section \<open>Operational endpoints\<close>

record Response =
  rs_status :: nat
  rs_headers :: "(string \<times> string) list"
  rs_body :: string

definition healthz :: Response where
  "healthz = \<lparr>rs_status = 200, rs_headers = [], rs_body = ''ok''\<rparr>"

definition readyz :: "AppState \<Rightarrow> Response" where
  "readyz app =
     (if app_is_draining app then \<lparr>rs_status = 503, rs_headers = [], rs_body = ''draining''\<rparr>
      else \<lparr>rs_status = 200, rs_headers = [], rs_body = ''ready''\<rparr>)"

definition metrics_endpoint :: "Externals \<Rightarrow> AppState \<Rightarrow> Response" where
  "metrics_endpoint ex app =
     \<lparr>rs_status = 200, rs_headers = [(''content-type'', ''text/plain; version=0.0.4; charset=utf-8'')],
      rs_body = metrics_render (ex_label_iter ex) (as_metrics app) (metrics_extra app)\<rparr>"

section \<open>Lemmas\<close>

lemma check_ext_services_ok [simp]: "check_ext_services svcs t rules = Inr ()"
  by (induction rules) (auto simp: FAIL_FAST_ON_MISMATCH_def split: option.splits)

lemma check_hot_services_ok [simp]: "check_hot_services svcs t rules = Inr ()"
  by (induction rules) (auto simp: FAIL_FAST_ON_MISMATCH_def split: option.splits)

lemma check_services_ok [simp]: "check_services text_svcs hot_svcs ts = Inr ()"
  by (induction ts) simp_all

definition tenant_compiles :: "instant \<Rightarrow> TenantConfig \<Rightarrow> TenantPolicyRuntime \<Rightarrow> bool" where
  "tenant_compiles now t p \<longleftrightarrow>
     TenantPolicyRuntime_new (tc_id t) (tl_max_frame_bytes (tc_limits t)) (tc_policy t) now = Inr p"

lemma compile_policies_Inr:
  "distinct (map tc_id ts) \<Longrightarrow> compile_policies now ts m = Inr m' \<Longrightarrow>
     (\<forall>t \<in> set ts. \<exists>p. tenant_compiles now t p \<and> m' (tc_id t) = Some p)
   \<and> (\<forall>i. i \<notin> tc_id ` set ts \<longrightarrow> m' i = m i)"
proof (induction ts arbitrary: m)
  case (Cons t ts)
  then obtain p where p: "tenant_compiles now t p" and rest: "compile_policies now ts (m(tc_id t \<mapsto> p)) = Inr m'"
    by (auto simp: tenant_compiles_def split: sum.splits)
  from Cons.IH [OF _ rest] Cons.prems(1) p show ?case by fastforce
qed simp

lemma compile_policies_Inl:
  "compile_policies now ts m = Inl e \<Longrightarrow> client_code e = CC_BadRequest \<and> (\<exists>t \<in> set ts. \<nexists>p. tenant_compiles now t p)"
  by (induction ts arbitrary: m) (auto simp: tenant_compiles_def split: sum.splits)

lemma AppState_new_Inr:
  "AppState_new ex now cfg = Inr app \<longleftrightarrow>
     (\<exists>m. compile_policies now (gc_tenants cfg) Map.empty = Inr m \<and>
       app = \<lparr>as_cfg = cfg, as_tenant_policy = m, as_realtime = Runtime_new,
              as_dispatcher = builtin_dispatcher ex, as_metrics = GatewayMetrics_default,
              as_handshake = HandshakeDefender_new now (gw_handshake_limit (gc_gateway cfg))\<rparr>)"
  by (auto simp: AppState_new_def Let_def and_then_eq_Inr)
lemma builtin_dispatcher_simps [simp]:
  "dp_text (builtin_dispatcher ex) =
     [''chat'' \<mapsto> ChatService (ex_iter ex) (ex_encode ex) (ex_send_req ex)]"
  "dp_hot (builtin_dispatcher ex) = [1 \<mapsto> EchoBinaryService (ex_iter ex) (ex_encode ex) 1]"
  by (simp_all add: builtin_dispatcher_def register_hot_def register_text_def Dispatcher_new_def
      ChatService_def EchoBinaryService_def)

text \<open>Dispatching through the built-in dispatcher keeps the service contract.\<close>

interpretation text_dispatch: service "dispatch_text (builtin_dispatcher ex)" for ex
proof unfold_locales
  fix w ctx env rt
  show "fst (dispatch_text (builtin_dispatcher ex) w ctx env rt) \<noteq> None"
    using chat.handle_returns by (simp add: dispatch_text_def ChatService_def)
  show "rt_core (snd (dispatch_text (builtin_dispatcher ex) w ctx env rt)) = rt_core rt"
    using chat.handle_core by (simp add: dispatch_text_def ChatService_def)
qed

interpretation hot_dispatch: service "dispatch_hot (builtin_dispatcher ex)" for ex
proof unfold_locales
  fix w ctx frame rt
  show "fst (dispatch_hot (builtin_dispatcher ex) w ctx frame rt) \<noteq> None"
    using echo.handle_returns by (simp add: dispatch_hot_def EchoBinaryService_def Let_def)
  show "rt_core (snd (dispatch_hot (builtin_dispatcher ex) w ctx frame rt)) = rt_core rt"
    using echo.handle_core by (simp add: dispatch_hot_def EchoBinaryService_def Let_def)
qed

text \<open>A configuration and externals for examples.\<close>

definition acme_cfg :: GatewayConfig where
  "acme_cfg =
     \<lparr>gc_version = 1, gc_gateway = GatewaySection_default,
      gc_tenants = map (\<lambda>i. \<lparr>tc_id = i, tc_limits = TenantLimits_default,
                             tc_policy = TenantPolicy_default\<rparr>) [''acme'']\<rparr>"

definition demo_ex :: Externals where
  "demo_ex =
     \<lparr>ex_iter = sorted_list_of_set, ex_hot_iter = sorted_list_of_set, ex_label_iter = sorted_list_of_set,
      ex_shard = (\<lambda>_. 0),
      ex_encode = (\<lambda>_. Inr ''json''), ex_display = (\<lambda>_. ''json''), ex_send_req = (\<lambda>d. Inr \<lparr>req_msg = d\<rparr>),
      ex_envelope = (\<lambda>s. Inr \<lparr>env_v = 1, env_svc = ''room'', env_msg_type = s, env_flags = 0, env_seq = None,
                              env_room = Some ''hall'', env_data = None\<rparr>)\<rparr>"

lemma acme_cfg_valid: "config_valid acme_cfg"
  unfolding acme_cfg_def by (rule default_tenants_valid) (simp_all add: white3_def)

lemma acme_compiles: "\<exists>p. tenant_compiles now \<lparr>tc_id = ''acme'', tc_limits = TenantLimits_default, tc_policy = TenantPolicy_default\<rparr> p"
  by (simp add: tenant_compiles_def TenantPolicyRuntime_new_def TenantPolicy_default_def default_ext_allowlist_def
      compile_ext_rule_def)

section \<open>Properties\<close>

text \<open>
  C34: Building the application state from a valid configuration fails only when the allowlist of
  some tenant does not compile, with a BAD_REQUEST error; otherwise exactly the configured tenants
  resolve, each to the runtime compiled from its own section, and the gateway starts empty and not
  draining.  The sanity check against the dispatcher never stops the start.
\<close>

theorem app_state_new_correct:
  assumes "config_valid cfg"
  shows "case AppState_new ex now cfg of
      Inl e \<Rightarrow> client_code e = CC_BadRequest \<and> (\<exists>t \<in> set (gc_tenants cfg). \<nexists>p. tenant_compiles now t p)
    | Inr app \<Rightarrow>
        (\<forall>i p. tenant_policy app i = Some p \<longleftrightarrow> (\<exists>t \<in> set (gc_tenants cfg). tc_id t = i \<and> tenant_compiles now t p))
      \<and> (\<forall>i. tenant_policy app i \<noteq> None \<longleftrightarrow> i \<in> tc_id ` set (gc_tenants cfg))
      \<and> \<not> app_is_draining app \<and> len_sessions (rc_sessions (rt_core (as_realtime app))) = 0"
proof (cases "compile_policies now (gc_tenants cfg) Map.empty")
  case (Inl e)
  then have "AppState_new ex now cfg = Inl e" by (simp add: AppState_new_def)
  then show ?thesis using compile_policies_Inl [OF Inl] by simp
next
  case (Inr m)
  have d: "distinct (map tc_id (gc_tenants cfg))" using assms by (simp add: config_valid_def)
  obtain app where app: "AppState_new ex now cfg = Inr app" and m: "as_tenant_policy app = m"
    and rt: "as_realtime app = Runtime_new" "as_metrics app = GatewayMetrics_default"
    using Inr by (simp add: AppState_new_Inr)
  note c = compile_policies_Inr [OF d Inr]
  have pol: "m i = Some p \<longleftrightarrow> (\<exists>t \<in> set (gc_tenants cfg). tc_id t = i \<and> tenant_compiles now t p)" for i p
  proof
    assume "m i = Some p"
    moreover from this c have "i \<in> tc_id ` set (gc_tenants cfg)" by (metis option.distinct(1))
    ultimately show "\<exists>t \<in> set (gc_tenants cfg). tc_id t = i \<and> tenant_compiles now t p" using c by fastforce
  next
    assume "\<exists>t \<in> set (gc_tenants cfg). tc_id t = i \<and> tenant_compiles now t p"
    then show "m i = Some p" using c by (fastforce simp: tenant_compiles_def)
  qed
  have "m i \<noteq> None \<longleftrightarrow> i \<in> tc_id ` set (gc_tenants cfg)" for i
  proof
    assume "i \<in> tc_id ` set (gc_tenants cfg)"
    then show "m i \<noteq> None" using c by fastforce
  qed (use c in auto)
  then show ?thesis
    using pol by (simp add: app m rt tenant_policy_def app_is_draining_def is_draining_def
        GatewayMetrics_default_def len_sessions_def Runtime_new_def RealtimeCore_new_def SessionRegistry_new_def)
qed

theorem app_state_new_correct_witness:
  "\<exists>app. AppState_new demo_ex 0 acme_cfg = Inr app
     \<and> tenant_policy app ''acme'' \<noteq> None \<and> tenant_policy app ''other'' = None"
proof -
  note c = app_state_new_correct [OF acme_cfg_valid, where ex = demo_ex and now = 0]
  show ?thesis
  proof (cases "AppState_new demo_ex 0 acme_cfg")
    case (Inl e)
    with c acme_compiles show ?thesis by (auto simp: acme_cfg_def)
  next
    case (Inr app)
    have ids: "tc_id ` set (gc_tenants acme_cfg) = {''acme''}" by (simp add: acme_cfg_def)
    note p = c [unfolded Inr sum.case, THEN conjunct2, THEN conjunct1, unfolded ids]
    have "tenant_policy app ''acme'' \<noteq> None" "tenant_policy app ''other'' = None"
      using p [rule_format, of "''acme''"] p [rule_format, of "''other''"] by simp_all
    with Inr show ?thesis by blast
  qed
qed

text \<open>
  Dispatching is total and keeps the tables.  Through the dispatcher the gateway builds, both
  lanes always return; requests for a service other than \<open>chat\<close>, and hot frames for a service id other
  than 1, get a BAD_REQUEST error without any effect; and no request changes sessions or presence.
\<close>

theorem dispatch_total_and_framed:
  "(\<exists>res rt'. dispatch_text (builtin_dispatcher ex) w ctx env rt = (Some res, rt') \<and> rt_core rt' = rt_core rt)
   \<and> (\<exists>res rt'. dispatch_hot (builtin_dispatcher ex) w ctx frame rt = (Some res, rt') \<and> rt_core rt' = rt_core rt)
   \<and> (if env_svc env = ''chat'' then True
      else dispatch_text (builtin_dispatcher ex) w ctx env rt =
             (Some (Inl (BadRequest (''unknown svc: '' @ env_svc env))), rt))
   \<and> (if hf_svc_id frame = 1 then True
      else dispatch_hot (builtin_dispatcher ex) w ctx frame rt =
             (Some (Inl (BadRequest (''unknown hot svc_id: '' @ show_nat (unat (hf_svc_id frame))))), rt))"
proof -
  have "if env_svc env = ''chat'' then True
      else dispatch_text (builtin_dispatcher ex) w ctx env rt =
             (Some (Inl (BadRequest (''unknown svc: '' @ env_svc env))), rt)"
    by (simp add: dispatch_text_def)
  moreover have "if hf_svc_id frame = 1 then True
      else dispatch_hot (builtin_dispatcher ex) w ctx frame rt =
             (Some (Inl (BadRequest (''unknown hot svc_id: '' @ show_nat (unat (hf_svc_id frame))))), rt)"
    by (simp add: dispatch_hot_def Let_def)
  ultimately show ?thesis using text_dispatch.handle_result hot_dispatch.handle_result by blast
qed

end
