(* ===== verification/Ws_Session.thy ===== *)
theory Ws_Session
  imports App_State
begin

text \<open>
  The WebSocket transport (\<open>crates/wsprism-gateway/src/transport/ws.rs\<close>): the checks before the
  upgrade, the set-up of a session, one step of its event loop for each arm of the \<open>select!\<close>, and the
  clean-up guard.  Clock readings, what the network does with a write and what other receivers do
  while a handler waits are arguments.
\<close>

record WsQuery =
  q_tenant :: string
  q_ticket :: string
  q_sid :: "string option"

record SessionState =
  st_active_room :: "string option"
  st_last_activity :: instant
  st_conn_limiter :: "ConnRateLimiter option"

text \<open>The application with the process-wide counters; \<open>g_next_chan\<close> names the next channel.\<close>

record Gateway =
  g_app :: AppState
  g_next_sid :: u64
  g_next_trace :: u64
  g_next_chan :: nat

definition Gateway_new :: "AppState \<Rightarrow> Gateway" where
  "Gateway_new app = \<lparr>g_app = app, g_next_sid = 1, g_next_trace = 1, g_next_chan = 0\<rparr>"

abbreviation g_rt :: "Gateway \<Rightarrow> Runtime" where
  "g_rt g \<equiv> as_realtime (g_app g)"

abbreviation g_core :: "Gateway \<Rightarrow> RealtimeCore" where
  "g_core g \<equiv> rt_core (as_realtime (g_app g))"

definition upd_rt :: "(Runtime \<Rightarrow> Runtime) \<Rightarrow> Gateway \<Rightarrow> Gateway" where
  "upd_rt f g = g\<lparr>g_app := (g_app g)\<lparr>as_realtime := f (g_rt g)\<rparr>\<rparr>"

definition upd_core :: "(RealtimeCore \<Rightarrow> RealtimeCore) \<Rightarrow> Gateway \<Rightarrow> Gateway" where
  "upd_core f = upd_rt (\<lambda>rt. rt\<lparr>rt_core := f (rt_core rt)\<rparr>)"

definition upd_chans :: "(channels \<Rightarrow> channels) \<Rightarrow> Gateway \<Rightarrow> Gateway" where
  "upd_chans f = upd_rt (\<lambda>rt. rt\<lparr>rt_chans := f (rt_chans rt)\<rparr>)"

definition upd_metrics :: "(GatewayMetrics \<Rightarrow> GatewayMetrics) \<Rightarrow> Gateway \<Rightarrow> Gateway" where
  "upd_metrics f g = g\<lparr>g_app := (g_app g)\<lparr>as_metrics := f (as_metrics (g_app g))\<rparr>\<rparr>"

definition set_policy :: "string \<Rightarrow> TenantPolicyRuntime \<Rightarrow> Gateway \<Rightarrow> Gateway" where
  "set_policy tenant p g =
     g\<lparr>g_app := (g_app g)\<lparr>as_tenant_policy := (as_tenant_policy (g_app g))(tenant \<mapsto> p)\<rparr>\<rparr>"

definition inc_policy :: "labels \<Rightarrow> Gateway \<Rightarrow> Gateway" where
  "inc_policy ls = upd_metrics (\<lambda>m. m\<lparr>gm_policy_decisions := CounterVec_inc ls (gm_policy_decisions m)\<rparr>)"

definition inc_service_errors :: "labels \<Rightarrow> Gateway \<Rightarrow> Gateway" where
  "inc_service_errors ls = upd_metrics (\<lambda>m. m\<lparr>gm_service_errors := CounterVec_inc ls (gm_service_errors m)\<rparr>)"

definition inc_rejections :: "labels \<Rightarrow> Gateway \<Rightarrow> Gateway" where
  "inc_rejections ls =
     upd_metrics (\<lambda>m. m\<lparr>gm_handshake_rejections := CounterVec_inc ls (gm_handshake_rejections m)\<rparr>)"

definition gauge_sessions :: "(labels \<Rightarrow> GaugeVec \<Rightarrow> GaugeVec) \<Rightarrow> string \<Rightarrow> Gateway \<Rightarrow> Gateway" where
  "gauge_sessions f tenant =
     upd_metrics (\<lambda>m. m\<lparr>gm_ws_active_sessions := f [(''tenant'', tenant)] (gm_ws_active_sessions m)\<rparr>)"

definition observe_dispatch :: "labels \<Rightarrow> nat \<Rightarrow> Gateway \<Rightarrow> Gateway" where
  "observe_dispatch ls dur =
     upd_metrics (\<lambda>m. m\<lparr>gm_dispatch_duration := observe ls dur (gm_dispatch_duration m)\<rparr>)"

section \<open>Identifiers and system messages\<close>

definition gen_sid :: "Gateway \<Rightarrow> string \<times> Gateway" where
  "gen_sid g = (show_hex (unat (g_next_sid g)), g\<lparr>g_next_sid := g_next_sid g + 1\<rparr>)"

definition gen_trace :: "nat \<Rightarrow> Gateway \<Rightarrow> string \<times> Gateway" where
  "gen_trace nanos g =
     (show_hex nanos @ ''-'' @ show_hex (unat (g_next_trace g)), g\<lparr>g_next_trace := g_next_trace g + 1\<rparr>)"

definition sys_authed_json :: "Externals \<Rightarrow> string \<Rightarrow> string \<Rightarrow> string \<Rightarrow> string \<Rightarrow> string" where
  "sys_authed_json ex tenant user sid trace_id =
     ex_display ex (JObj [(''v'', JNum 1), (''svc'', JStr ''sys''), (''type'', JStr ''authed''),
       (''data'', JObj [(''tenant'', JStr tenant), (''user'', JStr user), (''sid'', JStr sid)]),
       (''trace_id'', JStr trace_id)])"

definition sys_error_json :: "Externals \<Rightarrow> string \<Rightarrow> string \<Rightarrow> string \<Rightarrow> string" where
  "sys_error_json ex code msg trace_id =
     ex_display ex (JObj [(''v'', JNum 1), (''svc'', JStr ''sys''), (''type'', JStr ''error''),
       (''data'', JObj [(''code'', JStr code), (''msg'', JStr msg)]), (''trace_id'', JStr trace_id)])"

definition sys_kicked_json :: "Externals \<Rightarrow> string \<Rightarrow> string \<Rightarrow> string" where
  "sys_kicked_json ex reason trace_id =
     ex_display ex (JObj [(''v'', JNum 1), (''svc'', JStr ''sys''), (''type'', JStr ''kicked''),
       (''data'', JObj [(''reason'', JStr reason)]), (''trace_id'', JStr trace_id)])"

definition sys_joined_json :: "Externals \<Rightarrow> string \<Rightarrow> string \<Rightarrow> string" where
  "sys_joined_json ex room trace_id =
     ex_display ex (JObj [(''v'', JNum 1), (''svc'', JStr ''sys''), (''type'', JStr ''joined''),
       (''room'', JStr room), (''trace_id'', JStr trace_id)])"

definition sys_left_json :: "Externals \<Rightarrow> string \<Rightarrow> string" where
  "sys_left_json ex trace_id =
     ex_display ex (JObj [(''v'', JNum 1), (''svc'', JStr ''sys''), (''type'', JStr ''left''),
       (''trace_id'', JStr trace_id)])"

section \<open>Before the upgrade\<close>

text \<open>A request whose check never returns gets no answer.\<close>

datatype UpgradeResult = Refused Response | Upgraded | Hanging

definition ws_upgrade ::
  "Externals \<Rightarrow> instant \<Rightarrow> IpAddr \<Rightarrow> WsQuery \<Rightarrow> Gateway \<Rightarrow> UpgradeResult \<times> Gateway" where
  "ws_upgrade ex now ip q g =
     (let (r, hs) = hd_check (ex_shard ex) now ip (as_handshake (g_app g));
          g = g\<lparr>g_app := (g_app g)\<lparr>as_handshake := hs\<rparr>\<rparr>
      in
        case r of
          CheckHang \<Rightarrow> (Hanging, g)
        | CheckErr wait_secs \<Rightarrow>
            (Refused \<lparr>rs_status = 429,
                      rs_headers = [(''retry-after'', fst (retry_after_header_secs wait_secs))],
                      rs_body = ''Too Many Requests''\<rparr>,
             inc_rejections [(''tenant'', q_tenant q), (''reason'', ''rate_limit'')] g)
        | CheckOk \<Rightarrow>
            if app_is_draining (g_app g) then
              (Refused \<lparr>rs_status = 503, rs_headers = [], rs_body = ''draining''\<rparr>, g)
            else
              (case find (\<lambda>t. tc_id t = q_tenant q) (gc_tenants (as_cfg (g_app g))) of
                 Some t_cfg \<Rightarrow>
                   (let limit = tl_max_sessions_total (tc_limits t_cfg) in
                    if limit > 0 \<and> count_tenant_sessions (rc_sessions (g_core g)) (q_tenant q) \<ge> limit then
                      (Refused \<lparr>rs_status = 503, rs_headers = [(''retry-after'', ''1'')],
                                rs_body = ''Tenant Capacity Exceeded''\<rparr>,
                       inc_rejections [(''tenant'', q_tenant q), (''reason'', ''tenant_capacity'')] g)
                    else
                      (Upgraded,
                       upd_metrics (\<lambda>m. m\<lparr>gm_ws_upgrades :=
                         CounterVec_inc [(''tenant'', q_tenant q), (''status'', ''ok'')] (gm_ws_upgrades m)\<rparr>) g))
               | None \<Rightarrow>
                   (Refused \<lparr>rs_status = 400, rs_headers = [], rs_body = ''Unknown Tenant''\<rparr>, g)))"

section \<open>Set-up and clean-up of a session\<close>

text \<open>
  The locals of \<open>run_session\<close> that live across the loop.  \<open>ws_wire\<close> is what was written to the socket.
\<close>

record WsSession =
  ws_tenant :: string
  ws_user_id :: string
  ws_sid :: string
  ws_trace_id :: string
  ws_user_key :: string
  ws_session_key :: string
  ws_tx :: nat
  ws_limits :: TenantLimits
  ws_sess :: SessionState
  ws_hot_op_counter :: u64
  ws_wire :: "Message list"

definition close_chan :: "nat \<Rightarrow> Gateway \<Rightarrow> Gateway" where
  "close_chan tx = upd_chans (\<lambda>cs. case cs tx of None \<Rightarrow> cs | Some c \<Rightarrow> cs(tx \<mapsto> c\<lparr>ch_open := False\<rparr>))"

definition new_channel :: "Gateway \<Rightarrow> nat \<times> Gateway" where
  "new_channel g =
     (let tx = g_next_chan g in
      (tx, (upd_chans (\<lambda>cs. cs(tx \<mapsto> mpsc_channel 1024)) g)\<lparr>g_next_chan := tx + 1\<rparr>))"

text \<open>\<open>Drop for SessionCleanup\<close>, and the end of \<open>run_session\<close>, which drops the receiver too.\<close>

definition session_cleanup :: "Externals \<Rightarrow> string \<Rightarrow> string \<Rightarrow> string \<Rightarrow> Gateway \<Rightarrow> Gateway" where
  "session_cleanup ex tenant_id user_key session_key g =
     (let g = upd_core (\<lambda>c. c\<lparr>rc_sessions := snd (remove_session user_key session_key (rc_sessions c))\<rparr>) g;
          g = upd_core (\<lambda>c. c\<lparr>rc_presence :=
                cleanup_session (ex_iter ex) tenant_id user_key session_key (rc_presence c)\<rparr>) g
      in gauge_sessions GaugeVec_dec tenant_id g)"

definition session_end :: "Externals \<Rightarrow> WsSession \<Rightarrow> Gateway \<Rightarrow> Gateway" where
  "session_end ex s g =
     close_chan (ws_tx s) (session_cleanup ex (ws_tenant s) (ws_user_key s) (ws_session_key s) g)"

definition kick_oldest :: "Externals \<Rightarrow> string \<Rightarrow> string \<Rightarrow> string \<Rightarrow> Gateway \<Rightarrow> Gateway" where
  "kick_oldest ex tenant user_key trace_id g =
     (let (evicted, reg) = evict_oldest (ex_iter ex) user_key (rc_sessions (g_core g));
          g = upd_core (\<lambda>c. c\<lparr>rc_sessions := reg\<rparr>) g
      in
        case evicted of
          None \<Rightarrow> g
        | Some (victim, victim_conn) \<Rightarrow>
            (let g = upd_chans (\<lambda>cs. snd (try_send (conn_tx victim_conn)
                       (MText (sys_kicked_json ex ''max_sessions_exceeded'' trace_id)) cs)) g;
                 g = upd_chans (\<lambda>cs. snd (try_send (conn_tx victim_conn) (MClose (Some (1008, ''kicked''))) cs)) g;
                 g = upd_core (\<lambda>c. c\<lparr>rc_presence :=
                       cleanup_session (ex_iter ex) tenant user_key victim (rc_presence c)\<rparr>) g
             in gauge_sessions GaugeVec_dec tenant g))"

datatype Setup =
    SetupErr WsPrismError
  | SetupDone
  | SetupPanic
  | SetupStuck
  | SetupRunning WsSession

text \<open>
  From the look-up of the tenant's limits to the loop; the loop's own queue has no other reader.
  \<open>tokio::time::interval\<close> panics on a zero period, which runs the clean-up guard.
\<close>

definition ws_admit ::
  "Externals \<Rightarrow> instant \<Rightarrow> TenantPolicyRuntime \<Rightarrow> string \<Rightarrow> string \<Rightarrow> string \<Rightarrow> string \<Rightarrow> nat \<Rightarrow> Gateway
     \<Rightarrow> Setup \<times> Gateway" where
  "ws_admit ex now policy tenant user_id sid trace_id out_tx g =
     (let user_key = key_join tenant user_id;
          session_key = key_join tenant (key_join user_id sid)
      in
        case find (\<lambda>t. tc_id t = tenant) (gc_tenants (as_cfg (g_app g))) of
          None \<Rightarrow> (SetupPanic, close_chan out_tx g)
        | Some t_cfg \<Rightarrow>
            (let (r, reg) = try_insert tenant user_key session_key \<lparr>conn_tx = out_tx\<rparr>
                              (tl_max_sessions_total (tc_limits t_cfg)) (rc_sessions (g_core g));
                 g = upd_core (\<lambda>c. c\<lparr>rc_sessions := reg\<rparr>) g
             in
               case r of
                 Inl e \<Rightarrow> (SetupErr e, close_chan out_tx g)
               | Inr _ \<Rightarrow>
                   (let g = gauge_sessions GaugeVec_inc tenant g;
                        s = \<lparr>ws_tenant = tenant, ws_user_id = user_id, ws_sid = sid, ws_trace_id = trace_id,
                             ws_user_key = user_key, ws_session_key = session_key, ws_tx = out_tx,
                             ws_limits = tc_limits t_cfg,
                             ws_sess = \<lparr>st_active_room = None, st_last_activity = now,
                                        st_conn_limiter = new_connection_limiter now policy\<rparr>,
                             ws_hot_op_counter = 0, ws_wire = []\<rparr>;
                        (outcome, chans) = send_await (\<lambda>_. NoProgress) out_tx
                          (MText (sys_authed_json ex tenant user_id sid trace_id)) (rt_chans (g_rt g));
                        g = upd_chans (\<lambda>_. chans) g
                    in
                      case outcome of
                        Sent \<Rightarrow>
                          if gw_ping_interval_ms (gc_gateway (as_cfg (g_app g))) = 0
                          then (SetupPanic, session_end ex s g) else (SetupRunning s, g)
                      | SendClosed \<Rightarrow> (SetupErr (Internal ''closed''), session_end ex s g)
                      | Pending \<Rightarrow> (SetupStuck, g))))"

definition ws_setup :: "Externals \<Rightarrow> instant \<Rightarrow> nat \<Rightarrow> WsQuery \<Rightarrow> Gateway \<Rightarrow> Setup \<times> Gateway" where
  "ws_setup ex now nanos q g =
     (case tenant_policy (g_app g) (q_tenant q) of
        None \<Rightarrow> (SetupErr (BadRequest ''unknown tenant''), g)
      | Some policy \<Rightarrow>
          (case resolve_ticket (q_ticket q) of
             Inl e \<Rightarrow> (SetupErr e, g)
           | Inr user_id \<Rightarrow>
               (let (sid, g) = (case q_sid q of Some sid \<Rightarrow> (sid, g) | None \<Rightarrow> gen_sid g);
                    (trace_id, g) = gen_trace nanos g;
                    user_key = key_join (q_tenant q) user_id;
                    (out_tx, g) = new_channel g;
                    sp = pr_sessions policy
                in
                  if count_user_sessions (rc_sessions (g_core g)) user_key \<ge> unat (sp_max_sessions_per_user sp) then
                    (let g = inc_policy [(''tenant'', q_tenant q), (''lane'', ''session''),
                               (''decision'', ''reject''), (''reason'', ''max_user_sessions'')] g
                     in
                       case sp_on_exceed sp of
                         OE_Deny \<Rightarrow>
                           (SetupDone,
                            close_chan out_tx (upd_chans (\<lambda>cs. snd (send_await (\<lambda>_. NoProgress) out_tx
                              (MText (sys_error_json ex ''TOO_MANY_SESSIONS'' ''limit exceeded'' trace_id)) cs)) g))
                       | OE_KickOldest \<Rightarrow>
                           ws_admit ex now policy (q_tenant q) user_id sid trace_id out_tx
                             (kick_oldest ex (q_tenant q) user_key trace_id g))
                  else ws_admit ex now policy (q_tenant q) user_id sid trace_id out_tx g)))"

section \<open>The event loop\<close>

text \<open>
  How an arm of the loop ends: it goes round again, leaves the loop, waits forever, or panics.
  \<open>out_send\<close> is \<open>out_tx.send(msg).await\<close>: the loop is the only reader of that queue and does not read
  while it sends, so a full queue means waiting forever.
\<close>

datatype Flow = Continue | Break | Stuck | Panic

type_synonym loop_result = "Flow \<times> WsSession \<times> Gateway"

definition out_send :: "Flow \<Rightarrow> Message \<Rightarrow> WsSession \<Rightarrow> Gateway \<Rightarrow> loop_result" where
  "out_send next msg s g =
     (let (outcome, chans) = send_await (\<lambda>_. NoProgress) (ws_tx s) msg (rt_chans (g_rt g)) in
      (if outcome = Pending then Stuck else next, s, upd_chans (\<lambda>_. chans) g))"

definition send_error :: "Externals \<Rightarrow> Flow \<Rightarrow> string \<Rightarrow> string \<Rightarrow> WsSession \<Rightarrow> Gateway \<Rightarrow> loop_result" where
  "send_error ex next code msg s g = out_send next (MText (sys_error_json ex code msg (ws_trace_id s))) s g"

text \<open>An error reply of the Hot Lane is sent only in the \<open>sys_error\<close> mode.\<close>

definition hot_error ::
  "Externals \<Rightarrow> TenantPolicyRuntime \<Rightarrow> Flow \<Rightarrow> string \<Rightarrow> string \<Rightarrow> WsSession \<Rightarrow> Gateway \<Rightarrow> loop_result" where
  "hot_error ex policy next code msg s g =
     (if pr_hot_error_mode policy = HEM_SysError then send_error ex next code msg s g else (next, s, g))"

definition ws_ctx :: "WsSession \<Rightarrow> string option \<Rightarrow> RealtimeCtx" where
  "ws_ctx s active_room = RealtimeCtx_new (ws_tenant s) (ws_user_id s) (ws_sid s) (ws_trace_id s) active_room"

definition ws_join :: "Externals \<Rightarrow> Envelope \<Rightarrow> WsSession \<Rightarrow> Gateway \<Rightarrow> loop_result" where
  "ws_join ex env s g =
     (let room = (case env_room env of Some r \<Rightarrow> r | None \<Rightarrow> ''default'');
          ctx = ws_ctx s (st_active_room (ws_sess s));
          (res, rt) = join_room_with_limits ctx room (ws_limits s) (g_rt g);
          g = upd_rt (\<lambda>_. rt) g
      in
        case res of
          Inr _ \<Rightarrow>
            (let s = s\<lparr>ws_sess := (ws_sess s)\<lparr>st_active_room := Some room\<rparr>\<rparr> in
             out_send Continue (MText (sys_joined_json ex room (ws_trace_id s))) s g)
        | Inl e \<Rightarrow>
            send_error ex Continue (as_str (client_code e)) (error_to_string e) s
              (inc_service_errors [(''tenant'', ws_tenant s), (''svc'', ''room''), (''type'', ''join_failed'')] g))"

definition ws_leave :: "Externals \<Rightarrow> WsSession \<Rightarrow> Gateway \<Rightarrow> loop_result" where
  "ws_leave ex s g =
     (let taken = st_active_room (ws_sess s);
          s = s\<lparr>ws_sess := (ws_sess s)\<lparr>st_active_room := None\<rparr>\<rparr>;
          g = (case taken of
                 Some room \<Rightarrow> upd_rt (leave_room (ws_ctx s None) room) g
               | None \<Rightarrow> g)
      in out_send Continue (MText (sys_left_json ex (ws_trace_id s))) s g)"

text \<open>
  \<open>w\<close> and \<open>dur\<close>: what full channels do while the handler runs, and how long it takes.  The task holds a
  shared pointer to its tenant's policy; here the policy is looked up in the shared state, so that the
  tenant limiter is shared by all sessions, and a failing look-up, which the task cannot have, is a panic.
\<close>

definition ws_dispatch_text ::
  "Externals \<Rightarrow> wait_oracle \<Rightarrow> nat \<Rightarrow> Envelope \<Rightarrow> WsSession \<Rightarrow> Gateway \<Rightarrow> loop_result" where
  "ws_dispatch_text ex w dur env s g =
     (let ctx = ws_ctx s (st_active_room (ws_sess s));
          (res, rt) = dispatch_text (as_dispatcher (g_app g)) w ctx env (g_rt g);
          g = upd_rt (\<lambda>_. rt) g
      in
        case res of
          None \<Rightarrow> (Stuck, s, g)
        | Some r \<Rightarrow>
            (let g = observe_dispatch [(''tenant'', ws_tenant s), (''lane'', ''ext'')] dur g in
             case r of
               Inr _ \<Rightarrow> (Continue, s, g)
             | Inl e \<Rightarrow>
                 send_error ex Continue (as_str (client_code e)) (error_to_string e) s
                   (inc_service_errors [(''tenant'', ws_tenant s), (''lane'', ''ext'')] g)))"

definition ext_labels :: "WsSession \<Rightarrow> string \<Rightarrow> string \<Rightarrow> string \<Rightarrow> labels" where
  "ext_labels s lane decision reason =
     [(''tenant'', ws_tenant s), (''lane'', lane), (''decision'', decision), (''reason'', reason)]"

definition conn_allow :: "instant \<Rightarrow> ConnRateLimiter option \<Rightarrow> bool \<times> ConnRateLimiter option" where
  "conn_allow now limiter =
     (case limiter of
        None \<Rightarrow> (True, None)
      | Some l \<Rightarrow> (let (ok, l) = ConnRateLimiter_allow now l in (ok, Some l)))"

definition ws_text ::
  "Externals \<Rightarrow> instant \<Rightarrow> wait_oracle \<Rightarrow> nat \<Rightarrow> Envelope \<Rightarrow> usize \<Rightarrow> WsSession \<Rightarrow> Gateway \<Rightarrow> loop_result" where
  "ws_text ex now w dur env bytes_len s g =
     (let (allowed, limiter) = conn_allow now (st_conn_limiter (ws_sess s));
          s = s\<lparr>ws_sess := (ws_sess s)\<lparr>st_conn_limiter := limiter\<rparr>\<rparr>
      in
        if \<not> allowed then (Continue, s, inc_policy (ext_labels s ''ext'' ''drop'' ''conn_rate_limit'') g)
        else
          (case tenant_policy (g_app g) (ws_tenant s) of
             None \<Rightarrow> (Panic, s, g)
           | Some policy \<Rightarrow>
               (let (decision, policy) = check_text now policy bytes_len (env_svc env) (env_msg_type env);
                    g = set_policy (ws_tenant s) policy g
                in
                  case decision of
                    PD_Drop \<Rightarrow> (Continue, s, inc_policy (ext_labels s ''ext'' ''drop'' ''policy'') g)
                  | PD_Reject code msg \<Rightarrow>
                      send_error ex Continue (as_str code) msg s
                        (inc_policy (ext_labels s ''ext'' ''reject'' (as_str code)) g)
                  | PD_Close code msg \<Rightarrow>
                      send_error ex Break (as_str code) msg s
                        (inc_policy (ext_labels s ''ext'' ''close'' (as_str code)) g)
                  | PD_Pass \<Rightarrow>
                      if env_svc env = ''room'' \<and> env_msg_type env = ''join'' then ws_join ex env s g
                      else if env_svc env = ''room'' \<and> env_msg_type env = ''leave'' then ws_leave ex s g
                      else ws_dispatch_text ex w dur env s g)))"

definition ws_dispatch_hot ::
  "Externals \<Rightarrow> TenantPolicyRuntime \<Rightarrow> wait_oracle \<Rightarrow> nat \<Rightarrow> HotFrame \<Rightarrow> WsSession \<Rightarrow> Gateway \<Rightarrow> loop_result" where
  "ws_dispatch_hot ex policy w dur frame s g =
     (let ctx = ws_ctx s (st_active_room (ws_sess s));
          s = s\<lparr>ws_hot_op_counter := ws_hot_op_counter s + 1\<rparr>;
          should_sample = (ws_hot_op_counter s AND 1023 = 0);
          (res, rt) = dispatch_hot (as_dispatcher (g_app g)) w ctx frame (g_rt g);
          g = upd_rt (\<lambda>_. rt) g
      in
        case res of
          None \<Rightarrow> (Stuck, s, g)
        | Some r \<Rightarrow>
            (let g = (if should_sample
                      then observe_dispatch [(''tenant'', ws_tenant s), (''lane'', ''hot'')] dur g else g)
             in
               case r of
                 Inr _ \<Rightarrow> (Continue, s, g)
               | Inl e \<Rightarrow>
                   hot_error ex policy Continue (as_str (client_code e)) (error_to_string e) s
                     (inc_service_errors [(''tenant'', ws_tenant s), (''lane'', ''hot'')] g)))"

definition ws_hot ::
  "Externals \<Rightarrow> instant \<Rightarrow> wait_oracle \<Rightarrow> nat \<Rightarrow> HotFrame \<Rightarrow> usize \<Rightarrow> WsSession \<Rightarrow> Gateway \<Rightarrow> loop_result" where
  "ws_hot ex now w dur frame bytes_len s g =
     (case tenant_policy (g_app g) (ws_tenant s) of
        None \<Rightarrow> (Panic, s, g)
      | Some policy \<Rightarrow>
          (let (decision, policy) = check_hot now policy bytes_len (hf_svc_id frame) (hf_opcode frame);
               g = set_policy (ws_tenant s) policy g
           in
             case decision of
               PD_Drop \<Rightarrow> (Continue, s, inc_policy (ext_labels s ''hot'' ''drop'' ''policy'') g)
             | PD_Reject code msg \<Rightarrow>
                 hot_error ex policy Continue (as_str code) msg s
                   (inc_policy (ext_labels s ''hot'' ''reject'' (as_str code)) g)
             | PD_Close code msg \<Rightarrow>
                 hot_error ex policy Break (as_str code) msg s
                   (inc_policy (ext_labels s ''hot'' ''close'' (as_str code)) g)
             | PD_Pass \<Rightarrow>
                 if pr_hot_requires_active_room policy \<and> st_active_room (ws_sess s) = None then
                   hot_error ex policy Continue ''BAD_REQUEST'' ''no active room'' s g
                 else ws_dispatch_hot ex policy w dur frame s g))"

definition ws_incoming ::
  "Externals \<Rightarrow> instant \<Rightarrow> wait_oracle \<Rightarrow> nat \<Rightarrow> Message \<Rightarrow> WsSession \<Rightarrow> Gateway \<Rightarrow> loop_result" where
  "ws_incoming ex now w dur msg s g =
     (let s = s\<lparr>ws_sess := (ws_sess s)\<lparr>st_last_activity := now\<rparr>\<rparr> in
      case decode (ex_envelope ex) msg of
        None \<Rightarrow> (Panic, s, g)
      | Some (Inl e) \<Rightarrow>
          send_error ex Break (as_str (client_code e)) (error_to_string e) s
            (upd_metrics (\<lambda>m. m\<lparr>gm_decode_errors :=
               CounterVec_inc [(''tenant'', ws_tenant s)] (gm_decode_errors m)\<rparr>) g)
      | Some (Inr decoded) \<Rightarrow>
          (case decoded of
             InPing p \<Rightarrow> out_send Continue (MPong p) s g
           | InPong _ \<Rightarrow> (Continue, s, g)
           | InClose \<Rightarrow> (Break, s, g)
           | InText env bytes_len \<Rightarrow> ws_text ex now w dur env bytes_len s g
           | InHot frame bytes_len \<Rightarrow> ws_hot ex now w dur frame bytes_len s g))"

text \<open>What the socket does with a message handed to it within the write timeout.\<close>

datatype WriteOutcome = Written | WriteError | WriteTimeout

definition ws_write :: "WriteOutcome \<Rightarrow> WsSession \<Rightarrow> Gateway \<Rightarrow> loop_result" where
  "ws_write outcome s g =
     (case rt_chans (g_rt g) (ws_tx s) of
        None \<Rightarrow> (Break, s, g)
      | Some c \<Rightarrow>
          (case ch_queue c of
             [] \<Rightarrow> (Continue, s, g)
           | m # _ \<Rightarrow>
               (let g = upd_chans (\<lambda>cs. cs(ws_tx s \<mapsto> ch_take 1 c)) g in
                case outcome of
                  Written \<Rightarrow> (Continue, s\<lparr>ws_wire := ws_wire s @ [m]\<rparr>, g)
                | WriteError \<Rightarrow> (Continue, s, g)
                | WriteTimeout \<Rightarrow>
                    (Break, s,
                     upd_metrics (\<lambda>m. m\<lparr>gm_writer_timeouts :=
                       CounterVec_inc [(''tenant'', ws_tenant s)] (gm_writer_timeouts m)\<rparr>) g))))"

definition ws_idle :: "Externals \<Rightarrow> instant \<Rightarrow> WsSession \<Rightarrow> Gateway \<Rightarrow> loop_result" where
  "ws_idle ex now s g =
     (if now - st_last_activity (ws_sess s) \<ge> unat (gw_idle_timeout_ms (gc_gateway (as_cfg (g_app g)))) * 1000000
      then send_error ex Break ''TIMEOUT'' ''idle'' s g
      else (Continue, s, g))"

datatype Event =
    EvWrite WriteOutcome
  | EvIncoming "Message option" instant wait_oracle nat
  | EvPing
  | EvIdle instant

fun ws_step :: "Externals \<Rightarrow> Event \<Rightarrow> WsSession \<Rightarrow> Gateway \<Rightarrow> loop_result" where
  "ws_step ex (EvWrite outcome) s g = ws_write outcome s g"
| "ws_step ex (EvIncoming (Some msg) now w dur) s g = ws_incoming ex now w dur msg s g"
| "ws_step ex (EvIncoming None now w dur) s g = (Break, s, g)"
| "ws_step ex EvPing s g = out_send Continue (MPing []) s g"
| "ws_step ex (EvIdle now) s g = ws_idle ex now s g"

text \<open>
  The loop over a sequence of ready arms; leaving it, normally or by a panic, runs the guard.
\<close>

fun ws_loop :: "Externals \<Rightarrow> Event list \<Rightarrow> WsSession \<Rightarrow> Gateway \<Rightarrow> loop_result" where
  "ws_loop ex [] s g = (Continue, s, g)"
| "ws_loop ex (ev # evs) s g =
     (case ws_step ex ev s g of
        (Continue, s, g) \<Rightarrow> ws_loop ex evs s g
      | (Stuck, s, g) \<Rightarrow> (Stuck, s, g)
      | (flow, s, g) \<Rightarrow> (flow, s, session_end ex s g))"

end
