(* ===== verification/Presence_Limits.thy ===== *)
theory Presence_Limits
  imports Presence
begin

text \<open>
  Presence whatever the clients do: an invariant of the presence tables that also survives repeated
  joins, leaves of rooms the session is not in, and clean-ups of unknown sessions.  Only the tenants of
  the keys have to fit together.  It gives the governance limits without any assumption on the history.
\<close>

section \<open>The invariant\<close>

text \<open>
  The session tables are converse to each other, and so are the user tables; rooms hold only sessions
  and users of their own tenant; the room counter of a tenant counts its non-empty rooms; and the
  limits \<open>L\<close> of the tenants hold of the tables.
\<close>

definition table_limits :: "(string \<Rightarrow> TenantLimits) \<Rightarrow> Presence \<Rightarrow> bool" where
  "table_limits L p \<longleftrightarrow>
     (\<forall>r. tl_max_users_per_room (L (tenant_of r)) \<noteq> 0 \<longrightarrow>
        card (dm_get (ps_room_to_users p) r) \<le> unat (tl_max_users_per_room (L (tenant_of r))))
   \<and> (\<forall>u. tl_max_rooms_per_user (L (tenant_of u)) \<noteq> 0 \<longrightarrow>
        card (dm_get (ps_user_to_rooms p) u) \<le> unat (tl_max_rooms_per_user (L (tenant_of u))))
   \<and> (\<forall>t. tl_max_rooms_total (L t) \<noteq> 0 \<longrightarrow>
        card {r. members p r \<noteq> {} \<and> tenant_of r = t} \<le> unat (tl_max_rooms_total (L t)))"

definition pres_ok :: "(string \<Rightarrow> TenantLimits) \<Rightarrow> Presence \<Rightarrow> bool" where
  "pres_ok L p \<longleftrightarrow>
     dm_ok (ps_room_to_sessions p) \<and> dm_ok (ps_session_to_rooms p)
   \<and> dm_ok (ps_room_to_users p) \<and> dm_ok (ps_user_to_rooms p)
   \<and> (\<forall>r s. s \<in> members p r \<longleftrightarrow> r \<in> dm_get (ps_session_to_rooms p) s)
   \<and> (\<forall>r s. s \<in> members p r \<longrightarrow> tenant_of s = tenant_of r)
   \<and> (\<forall>r u. u \<in> dm_get (ps_room_to_users p) r \<longleftrightarrow> r \<in> dm_get (ps_user_to_rooms p) u)
   \<and> (\<forall>r u. u \<in> dm_get (ps_room_to_users p) r \<longrightarrow> tenant_of u = tenant_of r)
   \<and> (\<forall>t. room_count p t = of_nat (card {r. members p r \<noteq> {} \<and> tenant_of r = t}))
   \<and> (\<forall>r. members p r \<noteq> {} \<longrightarrow> ps_tenant_room_counts p (tenant_of r) \<noteq> None)
   \<and> table_limits L p"

lemma pres_okD:
  assumes "pres_ok L p"
  shows "dm_ok (ps_room_to_sessions p)" "dm_ok (ps_session_to_rooms p)"
    "dm_ok (ps_room_to_users p)" "dm_ok (ps_user_to_rooms p)"
    "s \<in> members p r \<longleftrightarrow> r \<in> dm_get (ps_session_to_rooms p) s"
    "s \<in> members p r \<Longrightarrow> tenant_of s = tenant_of r"
    "u \<in> dm_get (ps_room_to_users p) r \<longleftrightarrow> r \<in> dm_get (ps_user_to_rooms p) u"
    "u \<in> dm_get (ps_room_to_users p) r \<Longrightarrow> tenant_of u = tenant_of r"
    "room_count p t = of_nat (card {r. members p r \<noteq> {} \<and> tenant_of r = t})"
    "members p r \<noteq> {} \<Longrightarrow> ps_tenant_room_counts p (tenant_of r) \<noteq> None"
    "table_limits L p"
  using assms by (auto simp: pres_ok_def)

lemma pres_ok_new: "pres_ok L Presence_new"
  by (simp add: pres_ok_def table_limits_def Presence_new_def dm_simps room_count_def)

lemma pres_ok_finite: "pres_ok L p \<Longrightarrow> finite {r. members p r \<noteq> {} \<and> tenant_of r = t}"
proof -
  assume ok: "pres_ok L p"
  have "{r. members p r \<noteq> {} \<and> tenant_of r = t} \<subseteq> dom (ps_room_to_sessions p)" by (auto simp: dm_get_def split: option.splits)
  then show ?thesis using dm_ok_finite_dom [OF pres_okD(1) [OF ok]] by (rule finite_subset)
qed

section \<open>Leaving and cleaning up\<close>

lemma table_limits_shrink:
  assumes lim: "table_limits L p" and ok: "pres_ok L p"
    and "\<And>r. dm_get (ps_room_to_users q) r \<subseteq> dm_get (ps_room_to_users p) r"
    and "\<And>u. dm_get (ps_user_to_rooms q) u \<subseteq> dm_get (ps_user_to_rooms p) u"
    and "\<And>r. members q r \<subseteq> members p r"
  shows "table_limits L q"
proof -
  have "card (dm_get (ps_room_to_users q) r) \<le> card (dm_get (ps_room_to_users p) r)" for r
    by (rule card_mono [OF dm_ok_finite [OF pres_okD(3) [OF ok]] assms(3)])
  moreover have "card (dm_get (ps_user_to_rooms q) u) \<le> card (dm_get (ps_user_to_rooms p) u)" for u
    by (rule card_mono [OF dm_ok_finite [OF pres_okD(4) [OF ok]] assms(4)])
  moreover have "card {r. members q r \<noteq> {} \<and> tenant_of r = t} \<le> card {r. members p r \<noteq> {} \<and> tenant_of r = t}" for t
    by (rule card_mono [OF pres_ok_finite [OF ok]]) (use assms(5) in blast)
  ultimately show ?thesis using lim unfolding table_limits_def by (meson le_trans)
qed

lemma leave_count:
  assumes ok: "pres_ok L p" and t: "tenant_of r = t"
  shows "room_count (leave t r u s p) t' = of_nat (card {x. members (leave t r u s p) x \<noteq> {} \<and> tenant_of x = t'})"
proof -
  let ?A = "\<lambda>t. {x. members p x \<noteq> {} \<and> tenant_of x = t}"
  have mem: "members (leave t r u s p) x = (if x = r then members p r - {s} else members p x)" for x
    by (simp add: leave_tables dm_simps)
  show ?thesis
  proof (cases "members p r \<noteq> {} \<and> members p r - {s} = {}")
    case True
    then have "{x. members (leave t r u s p) x \<noteq> {} \<and> tenant_of x = t'} = (if t' = t then ?A t - {r} else ?A t')"
      by (auto simp: mem t)
    moreover have "r \<in> ?A t" using True t by simp
    moreover have "\<exists>S. ps_room_to_sessions p r = Some S \<and> S - {s} = {}"
      using True by (auto simp: dm_get_def split: option.splits)
    moreover have "ps_tenant_room_counts p t \<noteq> None" using pres_okD(10) [OF ok, of r] True t by blast
    ultimately show ?thesis
      using pres_okD(9) [OF ok] t of_nat_card_remove [OF pres_ok_finite [OF ok], where x = r and 'a = 64]
      by (simp add: leave_tables(6))
  next
    case False
    then have "{x. members (leave t r u s p) x \<noteq> {} \<and> tenant_of x = t'} = ?A t'" by (auto simp: mem)
    moreover have "\<not> (\<exists>S. ps_room_to_sessions p r = Some S \<and> S - {s} = {})"
    proof
      assume "\<exists>S. ps_room_to_sessions p r = Some S \<and> S - {s} = {}"
      then obtain S where S: "ps_room_to_sessions p r = Some S" "S - {s} = {}" by blast
      then have "S \<noteq> {}" using pres_okD(1) [OF ok] by (auto simp: dm_ok_def)
      with S False show False by (simp add: dm_get_def)
    qed
    ultimately show ?thesis using pres_okD(9) [OF ok] by (simp add: leave_tables(6))
  qed
qed

lemma pres_ok_leave:
  assumes ok: "pres_ok L p" and t: "tenant_of r = t"
  shows "pres_ok L (leave t r u s p)"
proof -
  let ?q = "leave t r u s p"
  note D = pres_okD [OF ok]
  have "dm_ok (ps_room_to_sessions ?q)" "dm_ok (ps_session_to_rooms ?q)" "dm_ok (ps_room_to_users ?q)"
    "dm_ok (ps_user_to_rooms ?q)"
    using D(1-4) by (auto simp: leave_tables)
  moreover have "\<forall>r s. s \<in> members ?q r \<longleftrightarrow> r \<in> dm_get (ps_session_to_rooms ?q) s"
    "\<forall>r s. s \<in> members ?q r \<longrightarrow> tenant_of s = tenant_of r"
    using D(5,6) by (auto simp: leave_tables dm_simps)
  moreover have "\<forall>r u. u \<in> dm_get (ps_room_to_users ?q) r \<longleftrightarrow> r \<in> dm_get (ps_user_to_rooms ?q) u"
    "\<forall>r u. u \<in> dm_get (ps_room_to_users ?q) r \<longrightarrow> tenant_of u = tenant_of r"
    using D(7,8) by (auto simp: leave_tables dm_simps)
  moreover have "ps_tenant_room_counts ?q (tenant_of x) \<noteq> None" if "members ?q x \<noteq> {}" for x
    using that D(10) [of x] by (auto simp: leave_tables dm_simps split: if_splits)
  moreover have "table_limits L ?q"
    by (rule table_limits_shrink [OF D(11) ok]) (auto simp: leave_tables dm_simps split: if_splits)
  ultimately show ?thesis
    unfolding pres_ok_def using leave_count [OF ok t] by blast
qed

lemma pres_ok_fold_leave:
  "pres_ok L p \<Longrightarrow> \<forall>r \<in> set rs. tenant_of r = t \<Longrightarrow> pres_ok L (fold (\<lambda>r. leave t r u s) rs p)"
  by (induction rs arbitrary: p) (simp_all add: pres_ok_leave)

lemma fold_leave_members:
  "members (fold (\<lambda>r. leave t r u s) rs p) r = (if r \<in> set rs then members p r - {s} else members p r)"
  by (induction rs arbitrary: p) (auto simp: leave_tables dm_simps)

lemma pres_ok_cleanup:
  assumes "pres_ok L p" and "iter_ok it" and "tenant_of s = t"
  shows "pres_ok L (cleanup_session it t u s p)" and "members (cleanup_session it t u s p) r = members p r - {s}"
proof -
  let ?S = "dm_get (ps_session_to_rooms p) s"
  note ok = pres_okD(2) [OF assms(1)]
  note eq = cleanup_session_eq [OF ok assms(2), of t u s]
  have S: "set (it ?S) = ?S" using iter_ok_set [OF assms(2) dm_ok_finite [OF ok]] .
  then have "\<forall>r \<in> set (it ?S). tenant_of r = t" using pres_okD(5,6) [OF assms(1)] assms(3) by metis
  then show "pres_ok L (cleanup_session it t u s p)" using assms(1) by (simp add: eq pres_ok_fold_leave)
  have "ps_session_to_rooms p s = None \<Longrightarrow> ?S = {}" by (simp add: dm_get_def)
  then show "members (cleanup_session it t u s p) r = members p r - {s}"
    using S pres_okD(5) [OF assms(1), of s r] by (auto simp: eq fold_leave_members)
qed

section \<open>Joining\<close>

lemma try_join_rooms:
  "ps_room_to_sessions (snd (try_join t r u s L p)) =
     (if fst (try_join t r u s L p) = Inr () then dm_add (ps_room_to_sessions p) r s else ps_room_to_sessions p)"
  "ps_session_to_rooms (snd (try_join t r u s L p)) =
     (if fst (try_join t r u s L p) = Inr () then dm_add (ps_session_to_rooms p) s r else ps_session_to_rooms p)"
  by (simp_all add: try_join_def Let_def perform_join_tables)

text \<open>An accepted join enters the user in the room's table and the room in the user's, or neither.\<close>

lemma try_join_users:
  assumes "fst (try_join t r u s L p) = Inr ()"
  obtains (both) "ps_room_to_users (snd (try_join t r u s L p)) = dm_add (ps_room_to_users p) r u"
      "ps_user_to_rooms (snd (try_join t r u s L p)) = dm_add (ps_user_to_rooms p) u r"
  | (neither) "ps_room_to_users (snd (try_join t r u s L p)) = ps_room_to_users p"
      "ps_user_to_rooms (snd (try_join t r u s L p)) = ps_user_to_rooms p"
  by (cases "case ps_user_room_refs p (key_join u r) of None \<Rightarrow> True | Some n \<Rightarrow> n = 0")
    (simp_all add: try_join_Inr [OF assms] perform_join_tables)

text \<open>The guards of an accepted join, read as cardinalities; below the limit no length wraps.\<close>

lemma u64_small: "n \<le> unat (m :: u64) \<Longrightarrow> n < 2 ^ 64"
proof -
  have "unat m < 2 ^ 64" using unsigned_less [of m] by simp
  then show "n \<le> unat m \<Longrightarrow> n < 2 ^ 64" by simp
qed

lemma try_join_guards:
  assumes "fst (try_join t r u s L p) = Inr ()"
  shows "tl_max_users_per_room L \<noteq> 0 \<Longrightarrow> card (dm_get (ps_room_to_users p) r) \<le> unat (tl_max_users_per_room L) \<Longrightarrow>
      u \<in> dm_get (ps_room_to_users p) r \<or> card (dm_get (ps_room_to_users p) r) < unat (tl_max_users_per_room L)"
    and "tl_max_rooms_per_user L \<noteq> 0 \<Longrightarrow> card (dm_get (ps_user_to_rooms p) u) \<le> unat (tl_max_rooms_per_user L) \<Longrightarrow>
      r \<in> dm_get (ps_user_to_rooms p) u \<or> card (dm_get (ps_user_to_rooms p) u) < unat (tl_max_rooms_per_user L)"
    and "tl_max_rooms_total L \<noteq> 0 \<Longrightarrow> ps_room_to_sessions p r = None \<Longrightarrow> room_count p t < tl_max_rooms_total L"
proof -
  have table: "x \<in> dm_get m k \<or> card (dm_get m k) < unat lim"
    if "\<not> (lim > 0 \<and> (case m k of None \<Rightarrow> False | Some S \<Rightarrow> of_nat (card S) \<ge> lim \<and> x \<notin> S))"
      "lim \<noteq> 0" "card (dm_get m k) \<le> unat lim" for m :: "string \<rightharpoonup> string set" and k x and lim :: u64
  proof (cases "m k")
    case None
    with that(2) show ?thesis by (simp add: dm_get_def word_neq_0_unat)
  next
    case (Some S)
    with that of_nat_ge_unat [OF u64_small [OF that(3)], of lim] show ?thesis
      by (simp add: dm_get_def word_gt_0) linarith
  qed
  have "\<not> (tl_max_users_per_room L > 0 \<and> (case ps_room_to_users p r of None \<Rightarrow> False
      | Some users \<Rightarrow> of_nat (card users) \<ge> tl_max_users_per_room L \<and> u \<notin> users))"
    using assms by (simp add: try_join_def split: if_splits)
  from table [where m = "ps_room_to_users p" and k = r and x = u, OF this]
  show "tl_max_users_per_room L \<noteq> 0 \<Longrightarrow> card (dm_get (ps_room_to_users p) r) \<le> unat (tl_max_users_per_room L) \<Longrightarrow>
      u \<in> dm_get (ps_room_to_users p) r \<or> card (dm_get (ps_room_to_users p) r) < unat (tl_max_users_per_room L)" .
  have "\<not> (tl_max_rooms_per_user L > 0 \<and> (case ps_user_to_rooms p u of None \<Rightarrow> False
      | Some rooms \<Rightarrow> of_nat (card rooms) \<ge> tl_max_rooms_per_user L \<and> r \<notin> rooms))"
    using assms by (simp add: try_join_def split: if_splits)
  from table [where m = "ps_user_to_rooms p" and k = u and x = r, OF this]
  show "tl_max_rooms_per_user L \<noteq> 0 \<Longrightarrow> card (dm_get (ps_user_to_rooms p) u) \<le> unat (tl_max_rooms_per_user L) \<Longrightarrow>
      r \<in> dm_get (ps_user_to_rooms p) u \<or> card (dm_get (ps_user_to_rooms p) u) < unat (tl_max_rooms_per_user L)" .
  show "room_count p t < tl_max_rooms_total L" if "tl_max_rooms_total L \<noteq> 0" "ps_room_to_sessions p r = None"
    using assms that by (simp add: try_join_def Let_def word_gt_0 not_le split: if_splits)
qed

lemma table_limits_join:
  assumes ok: "pres_ok L p" and t: "tenant_of r = t" "tenant_of u = t" and acc: "fst (try_join t r u s (L t) p) = Inr ()"
  shows "table_limits L (snd (try_join t r u s (L t) p))"
proof -
  let ?q = "snd (try_join t r u s (L t) p)"
  note lim = pres_okD(11) [OF ok] and G = try_join_guards [OF acc]
  have "card (dm_get (ps_room_to_users ?q) x) \<le> unat (tl_max_users_per_room (L (tenant_of x)))"
    if "tl_max_users_per_room (L (tenant_of x)) \<noteq> 0" for x
    using acc
  proof (cases rule: try_join_users)
    case both
    with that lim G(1) t(1) dm_ok_finite [OF pres_okD(3) [OF ok]] show ?thesis
      by (auto simp: table_limits_def dm_simps intro!: card_insert_bound)
  qed (use that lim in \<open>simp add: table_limits_def\<close>)
  moreover have "card (dm_get (ps_user_to_rooms ?q) x) \<le> unat (tl_max_rooms_per_user (L (tenant_of x)))"
    if "tl_max_rooms_per_user (L (tenant_of x)) \<noteq> 0" for x
    using acc
  proof (cases rule: try_join_users)
    case both
    with that lim G(2) t(2) dm_ok_finite [OF pres_okD(4) [OF ok]] show ?thesis
      by (auto simp: table_limits_def dm_simps intro!: card_insert_bound)
  qed (use that lim in \<open>simp add: table_limits_def\<close>)
  moreover have "card {x. members ?q x \<noteq> {} \<and> tenant_of x = t'} \<le> unat (tl_max_rooms_total (L t'))"
    if "tl_max_rooms_total (L t') \<noteq> 0" for t'
  proof (cases "t' = t \<and> members p r = {}")
    case True
    let ?A = "{x. members p x \<noteq> {} \<and> tenant_of x = t}"
    have A: "{x. members ?q x \<noteq> {} \<and> tenant_of x = t} = insert r ?A"
      using acc t by (auto simp: try_join_rooms dm_simps)
    have le: "card ?A \<le> unat (tl_max_rooms_total (L t))" using lim that True by (simp add: table_limits_def)
    then have "card ?A < 2 ^ 64" by (rule u64_small)
    then have "unat (room_count p t) = card ?A" by (simp add: pres_okD(9) [OF ok] unat_of_nat)
    moreover have "ps_room_to_sessions p r = None" using True dm_ok_None [OF pres_okD(1) [OF ok]] by blast
    then have "room_count p t < tl_max_rooms_total (L t)" using G(3) that True by blast
    ultimately have "card ?A < unat (tl_max_rooms_total (L t))" by (simp add: word_less_nat_alt)
    then have "card (insert r ?A) \<le> unat (tl_max_rooms_total (L t))"
      using card_insert_le_m1 [of "unat (tl_max_rooms_total (L t))" ?A r] by (simp add: card_insert_if pres_ok_finite [OF ok])
    with A True show ?thesis by simp
  next
    case False
    then have "{x. members ?q x \<noteq> {} \<and> tenant_of x = t'} = {x. members p x \<noteq> {} \<and> tenant_of x = t'}"
      using acc t by (auto simp: try_join_rooms dm_simps split: if_splits)
    with lim that show ?thesis by (simp add: table_limits_def)
  qed
  ultimately show ?thesis by (simp add: table_limits_def)
qed

lemma join_count:
  assumes ok: "pres_ok L p" and t: "tenant_of r = t" and acc: "fst (try_join t r u s lim p) = Inr ()"
  shows "room_count (snd (try_join t r u s lim p)) t' =
    of_nat (card {x. members (snd (try_join t r u s lim p)) x \<noteq> {} \<and> tenant_of x = t'})"
proof -
  let ?q = "snd (try_join t r u s lim p)"
  have mem: "members ?q x = (if x = r then insert s (members p r) else members p x)" for x
    using acc by (simp add: try_join_rooms dm_simps)
  have new: "ps_room_to_sessions p r = None \<longleftrightarrow> members p r = {}" using dm_ok_None [OF pres_okD(1) [OF ok]] by blast
  have "{x. members ?q x \<noteq> {} \<and> tenant_of x = t'} =
      (if t' = t then insert r {x. members p x \<noteq> {} \<and> tenant_of x = t'} else {x. members p x \<noteq> {} \<and> tenant_of x = t'})"
    by (auto simp: mem t)
  then show ?thesis
    using pres_okD(9) [OF ok] pres_ok_finite [OF ok] t
    by (simp add: try_join_Inr [OF acc] perform_join_tables room_count_upd new card_insert_if)
qed

lemma pres_ok_touch:
  "pres_ok L p \<Longrightarrow> pres_ok L (p\<lparr>ps_tenant_room_counts := (ps_tenant_room_counts p)(t \<mapsto> room_count p t)\<rparr>)"
  by (simp add: pres_ok_def table_limits_def room_count_upd)

lemma pres_ok_join:
  assumes ok: "pres_ok L p" and t: "tenant_of r = t" "tenant_of u = t" "tenant_of s = t"
  shows "pres_ok L (snd (try_join t r u s (L t) p))"
proof (cases "fst (try_join t r u s (L t) p)")
  case (Inl e)
  from try_join_Inl [OF this] ok pres_ok_touch [OF ok] show ?thesis by auto
next
  case (Inr x)
  then have acc: "fst (try_join t r u s (L t) p) = Inr ()" by simp
  let ?q = "snd (try_join t r u s (L t) p)"
  note D = pres_okD [OF ok]
  have "dm_ok (ps_room_to_sessions ?q)" "dm_ok (ps_session_to_rooms ?q)"
    using D(1,2) by (auto simp: try_join_rooms)
  moreover have "\<forall>r s. s \<in> members ?q r \<longleftrightarrow> r \<in> dm_get (ps_session_to_rooms ?q) s"
    "\<forall>r s. s \<in> members ?q r \<longrightarrow> tenant_of s = tenant_of r"
    using D(5,6) t acc by (auto simp: try_join_rooms dm_simps)
  moreover have "dm_ok (ps_room_to_users ?q) \<and> dm_ok (ps_user_to_rooms ?q)
      \<and> (\<forall>r u. u \<in> dm_get (ps_room_to_users ?q) r \<longleftrightarrow> r \<in> dm_get (ps_user_to_rooms ?q) u)
      \<and> (\<forall>r u. u \<in> dm_get (ps_room_to_users ?q) r \<longrightarrow> tenant_of u = tenant_of r)"
    using acc by (cases rule: try_join_users) (use D(3,4,7,8) t in \<open>auto simp: dm_simps\<close>)
  moreover have "ps_tenant_room_counts ?q (tenant_of x) \<noteq> None" if "members ?q x \<noteq> {}" for x
    using that D(10) [of x] D(10) [of r] t(1) acc dm_ok_None [OF D(1), of r]
    by (auto simp: try_join_rooms try_join_Inr [OF acc] perform_join_tables dm_simps split: if_splits)
  ultimately show ?thesis
    unfolding pres_ok_def using join_count [OF ok t(1) acc] table_limits_join [OF ok t(1,2) acc] by blast
qed

section \<open>Arbitrary histories\<close>

text \<open>
  Any join, any leave and any clean-up, of any user and session, on keys of one tenant.
\<close>

inductive any_step :: "iter_order \<Rightarrow> (string \<Rightarrow> TenantLimits) \<Rightarrow> Presence \<Rightarrow> Presence \<Rightarrow> bool" for it L where
  any_join: "tenant_of r = t \<Longrightarrow> tenant_of u = t \<Longrightarrow> tenant_of s = t \<Longrightarrow>
     any_step it L p (snd (try_join t r u s (L t) p))"
| any_leave: "tenant_of r = t \<Longrightarrow> any_step it L p (leave t r u s p)"
| any_cleanup: "tenant_of s = t \<Longrightarrow> any_step it L p (cleanup_session it t u s p)"

inductive any_reach :: "iter_order \<Rightarrow> (string \<Rightarrow> TenantLimits) \<Rightarrow> Presence \<Rightarrow> bool" for it L where
  any_reach_new: "any_reach it L Presence_new"
| any_reach_step: "any_reach it L p \<Longrightarrow> any_step it L p q \<Longrightarrow> any_reach it L q"

inductive_cases any_stepE: "any_step it L p q"

lemma any_step_ok: "any_step it L p q \<Longrightarrow> iter_ok it \<Longrightarrow> pres_ok L p \<Longrightarrow> pres_ok L q"
  by (erule any_stepE) (auto intro: pres_ok_join pres_ok_leave pres_ok_cleanup)

lemma any_reach_ok: "any_reach it L p \<Longrightarrow> iter_ok it \<Longrightarrow> pres_ok L p"
  by (induction rule: any_reach.induct) (auto intro: pres_ok_new any_step_ok)

section \<open>An example\<close>

lemma lobby_users: "dm_get (ps_room_to_users lobby) ''acme::lobby'' = {''acme::ann'', ''acme::bob''}"
proof -
  have rep: "pres_rep gw_own tenant_of gw_pok (members lobby) lobby"
    using gk.reach_rep [OF lobby_reach iter_ok_sorted] by blast
  from pres_repD(7) [OF rep, of "''acme::lobby''"] show ?thesis by (simp add: lobby_members)
qed

text \<open>The lobby after a repeated join of one of its two users and the refused join of a third.\<close>

definition busy_lobby :: Presence where
  "busy_lobby =
     snd (try_join ''acme'' ''acme::lobby'' ''acme::cy'' ''acme::cy::1'' lobby_limits
       (snd (try_join ''acme'' ''acme::lobby'' ''acme::ann'' ''acme::ann::1'' lobby_limits lobby)))"

lemma busy_lobby_reach: "any_reach sorted_list_of_set (\<lambda>_. lobby_limits) busy_lobby"
proof -
  let ?R = "any_reach sorted_list_of_set (\<lambda>_. lobby_limits)"
  have step: "?R (snd (try_join ''acme'' ''acme::lobby'' u s lobby_limits p))"
    if "?R p" "tenant_of u = ''acme''" "tenant_of s = ''acme''" for p u s
    using any_reach_step [OF that(1) any_join [OF lobby_keys(6) that(2,3)]] by simp
  show ?thesis
    unfolding busy_lobby_def lobby_def
    by (rule step step [OF step [OF step [OF any_reach_new]]] | simp add: tenant_of_def)+
qed

section \<open>Properties\<close>

text \<open>
  C7: The governance limits hold whatever the clients do.  After any sequence of joins, leaves and clean-ups
  by any users and sessions, repeated joins and leaves of rooms the session is not in included, as long
  as each call is made with keys of one tenant and that tenant's limits: under a non-zero limit no room
  lists more users and no user lists more rooms than configured, no tenant has more active rooms, and
  its room counter is the number of its active rooms.
\<close>

theorem presence_limits_hold:
  assumes "any_reach it L p" and "iter_ok it"
  shows "(tl_max_users_per_room (L (tenant_of r)) \<noteq> 0 \<longrightarrow>
      card (dm_get (ps_room_to_users p) r) \<le> unat (tl_max_users_per_room (L (tenant_of r))))
    \<and> (tl_max_rooms_per_user (L (tenant_of u)) \<noteq> 0 \<longrightarrow>
      card (dm_get (ps_user_to_rooms p) u) \<le> unat (tl_max_rooms_per_user (L (tenant_of u))))
    \<and> (tl_max_rooms_total (L t) \<noteq> 0 \<longrightarrow>
      card {r. members p r \<noteq> {} \<and> tenant_of r = t} \<le> unat (tl_max_rooms_total (L t)))
    \<and> room_count p t = of_nat (card {r. members p r \<noteq> {} \<and> tenant_of r = t})"
proof -
  note ok = any_reach_ok [OF assms]
  show ?thesis using pres_okD(9,11) [OF ok] unfolding table_limits_def by blast
qed

theorem presence_limits_hold_witness:
  "any_reach sorted_list_of_set (\<lambda>_. lobby_limits) busy_lobby
   \<and> {''acme::ann'', ''acme::bob''} \<subseteq> dm_get (ps_room_to_users busy_lobby) ''acme::lobby''
   \<and> card (dm_get (ps_room_to_users busy_lobby) ''acme::lobby'') \<le> 2"
proof -
  have grow: "dm_get (ps_room_to_users p) r \<subseteq> dm_get (ps_room_to_users (snd (try_join t r' u s l p))) r" for t r r' u s l p
    by (cases "fst (try_join t r' u s l p)")
      (auto dest: try_join_Inl simp: try_join_Inr perform_join_tables dm_simps)
  have "{''acme::ann'', ''acme::bob''} \<subseteq> dm_get (ps_room_to_users busy_lobby) ''acme::lobby''"
    unfolding busy_lobby_def lobby_users [symmetric] using grow by blast
  moreover have "card (dm_get (ps_room_to_users busy_lobby) ''acme::lobby'') \<le> 2"
    using presence_limits_hold [OF busy_lobby_reach iter_ok_sorted, of "''acme::lobby''"] by (simp add: lobby_limits_def)
  ultimately show ?thesis using busy_lobby_reach by blast
qed

end
