(* ===== verification/Tenant_View.thy ===== *)
theory Tenant_View
  imports Ws_Session Presence_Limits
begin

text \<open>
  An invariant of the session tables that holds whatever the clients do, reused session ids included,
  and what one tenant can see of the session and presence tables.  Every
  operation of the transport acts on keys of one tenant and changes no other tenant's view.
\<close>

section \<open>The registry, whatever the clients do\<close>

text \<open>
  Every session belongs to the tenant of its key and has a channel of its own, below the next one; the
  user index lists exactly the registered sessions, each under the user in its key.
\<close>

definition reg_ok :: "nat \<Rightarrow> SessionRegistry \<Rightarrow> bool" where
  "reg_ok n r \<longleftrightarrow>
     finite (dom (sr_sessions r)) \<and> dm_ok (sr_user_index r)
   \<and> (\<forall>s e. sr_sessions r s = Some e \<longrightarrow> tenant_of s = se_tenant_id e \<and> conn_tx (se_conn e) < n)
   \<and> (\<forall>u s. s \<in> dm_get (sr_user_index r) u \<longleftrightarrow> s \<in> dom (sr_sessions r) \<and> u = gw_own s)
   \<and> inj_on (\<lambda>s. map_option (\<lambda>e. conn_tx (se_conn e)) (sr_sessions r s)) (dom (sr_sessions r))"

lemma reg_ok_new: "reg_ok n SessionRegistry_new"
  by (simp add: reg_ok_def SessionRegistry_new_def dm_simps)

lemma reg_ok_mono: "reg_ok n r \<Longrightarrow> n \<le> m \<Longrightarrow> reg_ok m r"
  unfolding reg_ok_def by (meson order_less_le_trans)

lemma reg_ok_insert:
  assumes "reg_ok n r" and "tenant_of s = t" and "gw_own s = u"
  shows "reg_ok (Suc n) (snd (try_insert t u s \<lparr>conn_tx = n\<rparr> m r))"
proof (cases "m > 0 \<and> count_tenant_sessions r t \<ge> m")
  case True
  with reg_ok_mono [OF assms(1), of "Suc n"] show ?thesis by (simp add: try_insert_eq reg_ok_def)
next
  case False
  let ?r = "snd (try_insert t u s \<lparr>conn_tx = n\<rparr> m r)"
  have ss: "sr_sessions ?r = (sr_sessions r)(s \<mapsto> \<lparr>se_conn = \<lparr>conn_tx = n\<rparr>, se_created_seq = sr_seq r, se_tenant_id = t\<rparr>)"
    and ui: "sr_user_index ?r = dm_add (sr_user_index r) u s"
    using False by (auto simp: try_insert_eq)
  have old: "conn_tx (se_conn e) \<noteq> n" if "sr_sessions r s' = Some e" for s' e
    using assms(1) that by (fastforce simp: reg_ok_def)
  have "inj_on (\<lambda>s. map_option (\<lambda>e. conn_tx (se_conn e)) (sr_sessions ?r s)) (dom (sr_sessions ?r))"
    using assms(1) unfolding reg_ok_def inj_on_def ss by (auto split: if_splits) (metis old)+
  moreover have "tenant_of k = se_tenant_id e \<and> conn_tx (se_conn e) < Suc n" if "sr_sessions ?r k = Some e" for k e
    using that assms unfolding ss reg_ok_def by (auto split: if_splits simp: less_Suc_eq)
  moreover have "finite (dom (sr_sessions ?r))" "dm_ok (sr_user_index ?r)"
    "\<forall>u k. k \<in> dm_get (sr_user_index ?r) u \<longleftrightarrow> k \<in> dom (sr_sessions ?r) \<and> u = gw_own k"
    using assms by (auto simp: ss ui reg_ok_def dm_simps)
  ultimately show ?thesis by (simp add: reg_ok_def)
qed

lemma reg_ok_remove: "reg_ok n r \<Longrightarrow> gw_own s = u \<Longrightarrow> reg_ok n (snd (remove_session u s r))"
  by (auto simp: reg_ok_def remove_session_eq inj_on_def dm_simps split: if_splits)

lemma find_victim_mem:
  "find_victim ss keys vk vs = Some k \<Longrightarrow> vk = Some k \<or> k \<in> set keys"
  by (induction ss keys vk vs rule: find_victim.induct) (auto split: option.splits if_splits)

lemma reg_ok_index: "reg_ok n r \<Longrightarrow> sr_user_index r u = Some S \<Longrightarrow> k \<in> S \<Longrightarrow> gw_own k = u"
  unfolding reg_ok_def by (metis dm_get_def option.simps(5))

lemma evict_oldest_cases:
  assumes "reg_ok n r" and "iter_ok it"
  obtains (none) "evict_oldest it u r = (None, r)"
  | (victim) k where "gw_own k = u" "snd (evict_oldest it u r) = snd (remove_session u k r)"
proof (cases "sr_user_index r u")
  case None
  then show ?thesis using none by (simp add: evict_oldest_def)
next
  case (Some S)
  have fin: "finite S" using Some assms(1) by (auto simp: reg_ok_def dm_ok_def)
  show ?thesis
  proof (cases "find_victim (sr_sessions r) (it S) None (-1)")
    case None
    then show ?thesis using none Some by (simp add: evict_oldest_def)
  next
    case (Some k)
    then have "k \<in> S" using find_victim_mem [OF Some] iter_ok_set [OF assms(2) fin] by simp
    then have "gw_own k = u" by (rule reg_ok_index [OF assms(1) \<open>sr_user_index r u = Some S\<close>])
    moreover have "snd (evict_oldest it u r) = snd (remove_session u k r)"
      using Some \<open>sr_user_index r u = Some S\<close> by (simp add: evict_oldest_def case_prod_unfold Let_def)
    ultimately show ?thesis by (rule victim)
  qed
qed

lemma reg_ok_evict: "reg_ok n r \<Longrightarrow> iter_ok it \<Longrightarrow> reg_ok n (snd (evict_oldest it u r))"
  by (cases rule: evict_oldest_cases [of n r it u]) (auto simp: reg_ok_remove)

section \<open>The tables as one tenant sees them\<close>

text \<open>
  The sessions, the user lists and the session counter of a tenant; its rooms with their sessions and
  users, the rooms of its sessions and of its users, their reference counts and its room counter.
\<close>

definition only_of :: "string \<Rightarrow> (string \<rightharpoonup> 'a) \<Rightarrow> (string \<rightharpoonup> 'a)" where
  "only_of t m = (\<lambda>k. if tenant_of k = t then m k else None)"

definition reg_view ::
  "string \<Rightarrow> SessionRegistry \<Rightarrow> (string \<rightharpoonup> SessionEntry) \<times> (string \<rightharpoonup> string set) \<times> u64" where
  "reg_view t r = (only_of t (sr_sessions r), only_of t (sr_user_index r), count_tenant_sessions r t)"

definition pres_view ::
  "string \<Rightarrow> Presence \<Rightarrow> (string \<rightharpoonup> string set) \<times> (string \<rightharpoonup> string set) \<times> (string \<rightharpoonup> string set)
     \<times> (string \<rightharpoonup> string set) \<times> (string \<rightharpoonup> usize) \<times> u64" where
  "pres_view t p =
     (only_of t (ps_room_to_sessions p), only_of t (ps_session_to_rooms p), only_of t (ps_room_to_users p),
      only_of t (ps_user_to_rooms p), only_of t (ps_user_room_refs p), room_count p t)"

lemma only_of_upd [simp]: "tenant_of k \<noteq> t \<Longrightarrow> only_of t (m(k := v)) = only_of t m"
  by (auto simp: only_of_def)

lemma only_of_dm_add [simp]: "tenant_of k \<noteq> t \<Longrightarrow> only_of t (dm_add m k v) = only_of t m"
  by (simp add: dm_add_def)

lemma only_of_dm_del [simp]: "tenant_of k \<noteq> t \<Longrightarrow> only_of t (dm_del m k v) = only_of t m"
  by (simp add: dm_del_def Let_def split: option.splits)

lemma reg_view_insert:
  "tenant_of s \<noteq> t \<Longrightarrow> tenant_of u \<noteq> t \<Longrightarrow> t' \<noteq> t \<Longrightarrow> reg_view t (snd (try_insert t' u s c m r)) = reg_view t r"
  by (simp add: reg_view_def try_insert_eq) (simp add: count_tenant_sessions_def)

lemma reg_view_remove:
  assumes "reg_ok n r" and "tenant_of s \<noteq> t" and "tenant_of u \<noteq> t"
  shows "reg_view t (snd (remove_session u s r)) = reg_view t r"
proof -
  have "se_tenant_id e \<noteq> t" if "sr_sessions r s = Some e" for e
    using assms(1,2) that by (auto simp: reg_ok_def)
  then have "count_tenant_sessions (snd (remove_session u s r)) t = count_tenant_sessions r t"
    by (auto simp: remove_session_eq count_tenant_sessions_def split: option.splits)
  with assms(2,3) show ?thesis by (simp add: reg_view_def remove_session_eq)
qed

lemma reg_view_evict:
  assumes "reg_ok n r" and "iter_ok it" and "tenant_of u \<noteq> t"
  shows "reg_view t (snd (evict_oldest it u r)) = reg_view t r"
  using assms(1,2)
proof (cases rule: evict_oldest_cases [of n r it u])
  case (victim k)
  then show ?thesis using reg_view_remove [OF assms(1)] assms(3) by (metis tenant_of_gw_own)
qed simp

lemma tenant_of_ref_key: "tenant_of (key_join u r) = tenant_of u"
  by (induction u) (simp_all add: tenant_of_def key_join_def)

lemma pres_view_join:
  "tenant_of r \<noteq> t \<Longrightarrow> tenant_of u \<noteq> t \<Longrightarrow> tenant_of s \<noteq> t \<Longrightarrow> t' \<noteq> t \<Longrightarrow>
     pres_view t (snd (try_join t' r u s L p)) = pres_view t p"
  by (simp add: pres_view_def try_join_def Let_def perform_join_tables tenant_of_ref_key) (simp add: room_count_def)

lemma pres_view_leave:
  "tenant_of r \<noteq> t \<Longrightarrow> tenant_of u \<noteq> t \<Longrightarrow> tenant_of s \<noteq> t \<Longrightarrow> t' \<noteq> t \<Longrightarrow>
     pres_view t (leave t' r u s p) = pres_view t p"
  by (simp add: pres_view_def leave_tables tenant_of_ref_key split: option.splits)

lemma pres_view_fold_leave:
  "\<forall>r \<in> set rs. tenant_of r \<noteq> t \<Longrightarrow> tenant_of u \<noteq> t \<Longrightarrow> tenant_of s \<noteq> t \<Longrightarrow> t' \<noteq> t \<Longrightarrow>
     pres_view t (fold (\<lambda>r. leave t' r u s) rs p) = pres_view t p"
  by (induction rs arbitrary: p) (simp_all add: pres_view_leave)

lemma pres_view_cleanup:
  assumes "pres_ok L p" and "iter_ok it" and "tenant_of s \<noteq> t" and "tenant_of u \<noteq> t" and "t' \<noteq> t"
  shows "pres_view t (cleanup_session it t' u s p) = pres_view t p"
proof -
  let ?S = "dm_get (ps_session_to_rooms p) s"
  have ok: "dm_ok (ps_session_to_rooms p)" using assms(1) by (simp add: pres_ok_def)
  have "set (it ?S) = ?S" using iter_ok_set [OF assms(2) dm_ok_finite [OF ok]] .
  then have "\<forall>r \<in> set (it ?S). tenant_of r \<noteq> t" using assms(1,3) by (auto simp: pres_ok_def)
  then show ?thesis
    using cleanup_session_eq [OF ok assms(2)] pres_view_fold_leave [OF _ assms(4,3,5)] by simp
qed

section \<open>Acting for one tenant\<close>

lemma rt_simps [simp]:
  "g_rt (upd_metrics f g) = g_rt g" "g_rt (set_policy t p g) = g_rt g" "g_rt (inc_policy ls g) = g_rt g"
  "g_rt (inc_service_errors ls g) = g_rt g" "g_rt (inc_rejections ls g) = g_rt g"
  "g_rt (gauge_sessions h t g) = g_rt g" "g_rt (observe_dispatch ls d g) = g_rt g"
  by (simp_all add: upd_metrics_def inc_policy_def inc_service_errors_def inc_rejections_def
      gauge_sessions_def observe_dispatch_def set_policy_def)

lemma core_upd_chans [simp]: "g_core (upd_chans h g) = g_core g"
  by (simp add: upd_chans_def upd_rt_def)

abbreviation g_drain :: "Gateway \<Rightarrow> bool" where
  "g_drain g \<equiv> gm_draining (as_metrics (g_app g))"

lemma drain_simps [simp]:
  "g_drain (upd_metrics f g) = gm_draining (f (as_metrics (g_app g)))" "g_drain (upd_rt h g) = g_drain g"
  "g_drain (upd_chans k g) = g_drain g" "g_drain (upd_core l g) = g_drain g" "g_drain (set_policy t p g) = g_drain g"
  "g_drain (inc_policy ls g) = g_drain g" "g_drain (inc_service_errors ls g) = g_drain g"
  "g_drain (inc_rejections ls g) = g_drain g" "g_drain (gauge_sessions j t g) = g_drain g"
  "g_drain (observe_dispatch ls d g) = g_drain g" "g_drain (close_chan tx g) = g_drain g"
  by (simp_all add: upd_metrics_def upd_chans_def upd_core_def upd_rt_def inc_policy_def inc_service_errors_def
      inc_rejections_def gauge_sessions_def observe_dispatch_def close_chan_def set_policy_def)

lemma g_rt_upd_rt [simp]: "g_rt (upd_rt f g) = f (g_rt g)"
  by (simp add: upd_rt_def)

definition tenant_txs :: "Gateway \<Rightarrow> string \<Rightarrow> nat set" where
  "tenant_txs g t =
     {c. \<exists>k e. sr_sessions (rc_sessions (g_core g)) k = Some e \<and> conn_tx (se_conn e) = c \<and> se_tenant_id e = t}"

lemma send_await_log:
  "chan_log (rt\<lparr>rt_chans := snd (send_await w tx m (rt_chans rt))\<rparr>) c \<noteq> chan_log rt c \<Longrightarrow> c = tx"
  by (auto simp: send_await_def chan_log_def ch_push_def ch_take_def split: option.splits wait_outcome.splits if_splits)

lemma try_send_other: "tx' \<noteq> tx \<Longrightarrow> snd (try_send tx m cs) tx' = cs tx'"
  by (simp add: try_send_def split: option.splits)

lemma ch_take_log: "rt_chans rt tx = Some c \<Longrightarrow> chan_log (rt\<lparr>rt_chans := (rt_chans rt)(tx \<mapsto> ch_take n c)\<rparr>) = chan_log rt"
  by (rule ext) (simp add: chan_log_def ch_take_def)

lemma tenant_txs_set_policy [simp]: "tenant_txs (set_policy t p g) = tenant_txs g"
  by (rule ext) (simp add: tenant_txs_def set_policy_def)

definition tenant_view ::
  "string \<Rightarrow> Gateway \<Rightarrow>
     ((string \<rightharpoonup> SessionEntry) \<times> (string \<rightharpoonup> string set) \<times> u64)
   \<times> ((string \<rightharpoonup> string set) \<times> (string \<rightharpoonup> string set) \<times> (string \<rightharpoonup> string set)
       \<times> (string \<rightharpoonup> string set) \<times> (string \<rightharpoonup> usize) \<times> u64)
   \<times> TenantPolicyRuntime option" where
  "tenant_view t g =
     (reg_view t (rc_sessions (g_core g)), pres_view t (rc_presence (g_core g)), as_tenant_policy (g_app g) t)"

text \<open>
  A change of the gateway made on behalf of tenant \<open>t\<close> by the owner of channel \<open>tx\<close>: draining goes on as
  before, channels are not reused, no other tenant's view changes, messages go to \<open>tx\<close> and to channels of
  the tenant only, and the only channel that may be registered anew is \<open>tx\<close>, for the tenant.
\<close>

definition acts_for :: "nat \<Rightarrow> string \<Rightarrow> Gateway \<Rightarrow> Gateway \<Rightarrow> bool" where
  "acts_for tx t g g' \<longleftrightarrow>
     g_drain g' = g_drain g \<and> g_next_chan g \<le> g_next_chan g'
   \<and> (\<forall>t'. t' \<noteq> t \<longrightarrow> tenant_view t' g' = tenant_view t' g)
   \<and> (\<forall>c. chan_log (g_rt g') c \<noteq> chan_log (g_rt g) c \<longrightarrow> c = tx \<or> c \<in> tenant_txs g t)
   \<and> (\<forall>t' c. c \<in> tenant_txs g' t' \<longrightarrow> c \<in> tenant_txs g t' \<or> c = tx \<and> t' = t)"

lemma acts_for_refl [simp]: "acts_for tx t g g"
  by (simp add: acts_for_def)

lemma acts_for_trans [trans]:
  assumes "acts_for tx t g g1" and "acts_for tx t g1 g2"
  shows "acts_for tx t g g2"
proof -
  have "c = tx \<or> c \<in> tenant_txs g t" if "chan_log (g_rt g2) c \<noteq> chan_log (g_rt g) c" for c
    using assms that unfolding acts_for_def by metis
  moreover have "c \<in> tenant_txs g t' \<or> c = tx \<and> t' = t" if "c \<in> tenant_txs g2 t'" for c t'
    using assms that unfolding acts_for_def by metis
  ultimately show ?thesis using assms unfolding acts_for_def by auto
qed

lemma acts_for_metrics [simp]:
  "acts_for tx t g (inc_policy ls g') \<longleftrightarrow> acts_for tx t g g'"
  "acts_for tx t g (inc_service_errors ls g') \<longleftrightarrow> acts_for tx t g g'"
  "acts_for tx t g (gauge_sessions h u g') \<longleftrightarrow> acts_for tx t g g'"
  "acts_for tx t g (observe_dispatch ls d g') \<longleftrightarrow> acts_for tx t g g'"
  "gm_draining (f (as_metrics (g_app g'))) = g_drain g' \<Longrightarrow>
     acts_for tx t g (upd_metrics f g') \<longleftrightarrow> acts_for tx t g g'"
  by (simp_all add: acts_for_def tenant_view_def tenant_txs_def upd_metrics_def inc_policy_def
      inc_service_errors_def gauge_sessions_def observe_dispatch_def)

lemma acts_for_ids [simp]:
  "acts_for tx t g (snd (gen_sid g))" "acts_for tx t g (snd (gen_trace n g))"
  by (simp_all add: acts_for_def tenant_view_def tenant_txs_def gen_sid_def gen_trace_def)

lemma acts_for_set_policy: "acts_for tx t g (set_policy t p g)"
  by (simp add: acts_for_def) (simp add: tenant_view_def set_policy_def)

lemma acts_for_rt:
  assumes "rt_core rt = g_core g" and "\<And>c. chan_log rt c \<noteq> chan_log (g_rt g) c \<Longrightarrow> c = tx \<or> c \<in> tenant_txs g t"
  shows "acts_for tx t g (upd_rt (\<lambda>_. rt) g)"
  using assms by (auto simp: acts_for_def tenant_view_def tenant_txs_def upd_rt_def)

lemma acts_for_chans:
  assumes "\<And>c. chan_log ((g_rt g)\<lparr>rt_chans := h (rt_chans (g_rt g))\<rparr>) c \<noteq> chan_log (g_rt g) c \<Longrightarrow>
      c = tx \<or> c \<in> tenant_txs g t"
  shows "acts_for tx t g (upd_chans h g)"
  using acts_for_rt [of "(g_rt g)\<lparr>rt_chans := h (rt_chans (g_rt g))\<rparr>" g tx t] assms
  by (simp add: upd_chans_def upd_rt_def)

lemma acts_for_presence:
  assumes "\<And>t'. t' \<noteq> t \<Longrightarrow> pres_view t' (F (g_core g)) = pres_view t' (rc_presence (g_core g))"
  shows "acts_for tx t g (upd_core (\<lambda>c. c\<lparr>rc_presence := F c\<rparr>) g)"
proof -
  have "chan_log ((g_rt g)\<lparr>rt_core := x\<rparr>) = chan_log (g_rt g)" for x by (rule ext) (simp add: chan_log_def)
  with assms show ?thesis by (simp add: acts_for_def tenant_view_def tenant_txs_def upd_core_def upd_rt_def)
qed

lemma acts_for_sessions:
  assumes "\<And>t'. t' \<noteq> t \<Longrightarrow> reg_view t' r = reg_view t' (rc_sessions (g_core g))"
    and "\<And>k e. sr_sessions r k = Some e \<Longrightarrow>
      sr_sessions (rc_sessions (g_core g)) k = Some e \<or> conn_tx (se_conn e) = tx \<and> se_tenant_id e = t"
  shows "acts_for tx t g (upd_core (\<lambda>c. c\<lparr>rc_sessions := r\<rparr>) g)"
proof -
  have "chan_log ((g_rt g)\<lparr>rt_core := x\<rparr>) = chan_log (g_rt g)" for x by (rule ext) (simp add: chan_log_def)
  moreover have "c \<in> tenant_txs g t' \<or> c = tx \<and> t' = t"
    if "c \<in> tenant_txs (upd_core (\<lambda>c. c\<lparr>rc_sessions := r\<rparr>) g) t'" for c t'
    using that assms(2) by (fastforce simp: tenant_txs_def upd_core_def upd_rt_def)
  ultimately show ?thesis
    using assms(1) by (simp add: acts_for_def) (simp add: tenant_view_def upd_core_def upd_rt_def)
qed

lemma acts_for_close [simp]: "acts_for tx t g (close_chan c g)"
  unfolding close_chan_def by (rule acts_for_chans) (auto simp: chan_log_def split: option.splits if_splits)

lemma acts_for_next:
  "acts_for tx t g g' \<Longrightarrow> g_next_chan g' \<le> n \<Longrightarrow> acts_for tx t g (g'\<lparr>g_next_chan := n\<rparr>)"
  unfolding acts_for_def tenant_view_def tenant_txs_def by simp

lemma acts_for_new_channel:
  assumes "new_channel g = (tx, g')"
  shows "acts_for tx t g g'"
proof -
  let ?h = "upd_chans (\<lambda>cs. cs(tx \<mapsto> mpsc_channel 1024)) g"
  have "acts_for tx t g ?h" by (rule acts_for_chans) (auto simp: chan_log_def split: if_splits)
  moreover have "g' = ?h\<lparr>g_next_chan := Suc tx\<rparr>" "g_next_chan ?h \<le> Suc tx"
    using assms by (auto simp: new_channel_def Let_def upd_chans_def upd_rt_def)
  ultimately show ?thesis using acts_for_next by metis
qed

lemma acts_for_cleanup:
  assumes "reg_ok n (rc_sessions (g_core g))" and "pres_ok L (rc_presence (g_core g))" and "iter_ok (ex_iter ex)"
    and "tenant_of u = t" and "tenant_of k = t"
  shows "acts_for tx t g (session_cleanup ex t u k g)"
proof -
  let ?g = "upd_core (\<lambda>c. c\<lparr>rc_sessions := snd (remove_session u k (rc_sessions c))\<rparr>) g"
  have c: "rc_presence (g_core ?g) = rc_presence (g_core g)" by (simp add: upd_core_def)
  have "acts_for tx t g (upd_core (\<lambda>c. c\<lparr>rc_sessions := snd (remove_session u k (rc_sessions (g_core g)))\<rparr>) g)"
    using reg_view_remove [OF assms(1)] assms(4,5)
    by (intro acts_for_sessions) (auto simp: remove_session_eq split: if_splits)
  then have "acts_for tx t g ?g" by (simp add: upd_core_def upd_rt_def)
  also have "acts_for tx t ?g (upd_core (\<lambda>c. c\<lparr>rc_presence := cleanup_session (ex_iter ex) t u k (rc_presence c)\<rparr>) ?g)"
    using assms(2-5) c by (intro acts_for_presence) (simp add: pres_view_cleanup)
  finally show ?thesis by (simp add: session_cleanup_def Let_def)
qed

lemma acts_for_end:
  assumes "reg_ok n (rc_sessions (g_core g))" and "pres_ok L (rc_presence (g_core g))" and "iter_ok (ex_iter ex)"
    and "tenant_of (ws_user_key s) = ws_tenant s" and "tenant_of (ws_session_key s) = ws_tenant s"
  shows "acts_for tx (ws_tenant s) g (session_end ex s g)"
  unfolding session_end_def by (rule acts_for_trans [OF acts_for_cleanup [OF assms] acts_for_close])


lemma acts_for_chans_after:
  assumes "acts_for tx t g g'"
    and "\<And>c. chan_log ((g_rt g')\<lparr>rt_chans := h (rt_chans (g_rt g'))\<rparr>) c \<noteq> chan_log (g_rt g') c \<Longrightarrow>
      c = tx \<or> c \<in> tenant_txs g t"
  shows "acts_for tx t g (upd_chans h g')"
proof -
  have "c = tx \<or> c \<in> tenant_txs g t" if "chan_log (g_rt (upd_chans h g')) c \<noteq> chan_log (g_rt g) c" for c
    using that assms(1) assms(2) [of c]
    by (cases "chan_log ((g_rt g')\<lparr>rt_chans := h (rt_chans (g_rt g'))\<rparr>) c = chan_log (g_rt g') c")
      (simp_all add: acts_for_def upd_chans_def)
  with assms(1) show ?thesis by (simp add: acts_for_def) (simp add: tenant_view_def tenant_txs_def upd_chans_def upd_rt_def)
qed

lemma try_send_log:
  "chan_log (rt\<lparr>rt_chans := snd (try_send tx m (rt_chans rt))\<rparr>) c \<noteq> chan_log rt c \<Longrightarrow> c = tx"
  by (auto simp: chan_log_def try_send_def split: option.splits if_splits)

lemma evict_oldest_entry:
  "fst (evict_oldest it u r) = Some (k, c) \<Longrightarrow> \<exists>e. sr_sessions r k = Some e \<and> c = se_conn e"
  by (auto simp: evict_oldest_def remove_session_eq Let_def case_prod_unfold split: option.splits)

lemma evict_oldest_shrinks:
  "sr_sessions (snd (evict_oldest it u r)) k = Some e \<Longrightarrow> sr_sessions r k = Some e"
  by (auto simp: evict_oldest_def remove_session_eq Let_def case_prod_unfold split: option.splits if_splits)

lemma evict_oldest_owner:
  assumes "reg_ok n r" and "iter_ok it" and "fst (evict_oldest it u r) = Some (k, c)"
  shows "gw_own k = u"
proof -
  obtain S where S: "sr_user_index r u = Some S"
    using assms(3) by (auto simp: evict_oldest_def split: option.splits)
  have fin: "finite S" using S assms(1) by (auto simp: reg_ok_def dm_ok_def)
  have "find_victim (sr_sessions r) (it S) None (-1) = Some k"
    using assms(3) S by (auto simp: evict_oldest_def Let_def case_prod_unfold split: option.splits)
  then have "k \<in> S" using find_victim_mem iter_ok_set [OF assms(2) fin] by blast
  then show ?thesis by (rule reg_ok_index [OF assms(1) S])
qed

lemma acts_for_kick:
  assumes reg: "reg_ok n (rc_sessions (g_core g))" and pres: "pres_ok L (rc_presence (g_core g))"
    and it: "iter_ok (ex_iter ex)" and u: "tenant_of u = t"
  shows "acts_for tx t g (kick_oldest ex t u tr g)"
proof -
  obtain ev r where ev: "evict_oldest (ex_iter ex) u (rc_sessions (g_core g)) = (ev, r)" by fastforce
  let ?g1 = "upd_core (\<lambda>c. c\<lparr>rc_sessions := r\<rparr>) g"
  have a1: "acts_for tx t g ?g1"
    using reg_view_evict [OF reg it, of u] evict_oldest_shrinks [of "ex_iter ex" u "rc_sessions (g_core g)"] ev u
    by (intro acts_for_sessions) auto
  show ?thesis
  proof (cases ev)
    case None
    with a1 ev show ?thesis by (simp add: kick_oldest_def)
  next
    case (Some kc)
    obtain k c where kc: "kc = (k, c)" by fastforce
    obtain e where e: "sr_sessions (rc_sessions (g_core g)) k = Some e" "c = se_conn e"
      using evict_oldest_entry ev Some kc by (metis fst_conv)
    have k: "tenant_of k = t" using evict_oldest_owner [OF reg it] ev Some kc u by (metis fst_conv tenant_of_gw_own)
    have "se_tenant_id e = t" using reg e k by (auto simp: reg_ok_def)
    with e have tx: "conn_tx c \<in> tenant_txs g t" by (auto simp: tenant_txs_def)
    note snd = acts_for_chans_after [where h = "\<lambda>cs. snd (try_send (conn_tx c) m cs)" for m]
    let ?g2 = "upd_chans (\<lambda>cs. snd (try_send (conn_tx c) (MText (sys_kicked_json ex ''max_sessions_exceeded'' tr)) cs)) ?g1"
    let ?g3 = "upd_chans (\<lambda>cs. snd (try_send (conn_tx c) (MClose (Some (1008, ''kicked''))) cs)) ?g2"
    have "acts_for tx t g ?g2" by (rule snd [OF a1]) (use try_send_log tx in blast)
    then have "acts_for tx t g ?g3" by (rule snd) (use try_send_log tx in blast)
    also have "acts_for tx t ?g3 (upd_core (\<lambda>c. c\<lparr>rc_presence := cleanup_session (ex_iter ex) t u k (rc_presence c)\<rparr>) ?g3)"
      using pres it u k by (intro acts_for_presence) (simp add: pres_view_cleanup upd_chans_def upd_core_def)
    finally show ?thesis using ev Some kc by (simp add: kick_oldest_def Let_def)
  qed
qed


lemma acts_for_txs: "acts_for tx t g g' \<Longrightarrow> c \<in> tenant_txs g' t' \<Longrightarrow> c \<in> tenant_txs g t' \<or> c = tx \<and> t' = t"
  by (simp add: acts_for_def)


end
