(* ===== verification/Gateway_Main.thy ===== *)
theory Gateway_Main
  imports Ws_Session
begin

text \<open>
  The entry point (\<open>crates/wsprism-gateway/src/main.rs\<close>): start-up with its panics, and the shutdown
  future that starts draining and polls the session table until it is empty or the grace period is
  over.  The file system, the YAML parser, address parsing, the listening socket and the clock are
  arguments; \<open>late now\<close> is by how much the sleep that starts at \<open>now\<close> overruns its 50 ms.
\<close>

datatype StartResult = StartPanic string | Serving Gateway nat

definition main_start ::
  "file_reader \<Rightarrow> yaml_parser \<Rightarrow> (string \<Rightarrow> 'addr option) \<Rightarrow> ('addr \<Rightarrow> bool) \<Rightarrow> Externals \<Rightarrow> instant \<Rightarrow> StartResult" where
  "main_start rd yaml parse_addr bind ex now =
     (case load_from_file rd yaml ''wsprism.yaml'' of
        Inl _ \<Rightarrow> StartPanic ''config load failed''
      | Inr cfg \<Rightarrow>
          (case parse_addr (gw_listen (gc_gateway cfg)) of
             None \<Rightarrow> StartPanic ''gateway.listen must be a valid SocketAddr''
           | Some listen \<Rightarrow>
               (case AppState_new ex now cfg of
                  Inl _ \<Rightarrow> StartPanic ''failed to build app state''
                | Inr app \<Rightarrow>
                    if \<not> bind listen then StartPanic ''failed to bind''
                    else Serving (Gateway_new app) (unat (gw_drain_grace_ms (gc_gateway (as_cfg app)))))))"

definition begin_drain :: "Externals \<Rightarrow> Gateway \<Rightarrow> Gateway" where
  "begin_drain ex g =
     upd_rt (best_effort_shutdown_all (ex_iter ex) ''draining'') (g\<lparr>g_app := enter_draining (g_app g)\<rparr>)"

text \<open>
  The loop reads the gateway as the sessions have left it at each clock reading, \<open>gw now\<close>.  It returns
  the number of polls of the session table and the reading at which it ended.
\<close>

function drain_loop :: "(instant \<Rightarrow> Gateway) \<Rightarrow> (instant \<Rightarrow> nat) \<Rightarrow> instant \<Rightarrow> instant \<Rightarrow> nat \<times> instant" where
  "drain_loop gw late deadline now =
     (if now < deadline then
        if len_sessions (rc_sessions (g_core (gw now))) = 0 then (1, now)
        else
          (let (polls, end_time) = drain_loop gw late deadline (now + 50 * 1000000 + late now)
           in (polls + 1, end_time))
      else (0, now))"
  by pat_completeness auto
termination
  by (relation "measure (\<lambda>(gw, late, deadline, now). deadline - now)") auto

declare drain_loop.simps [simp del]

definition shutdown_wait :: "(instant \<Rightarrow> Gateway) \<Rightarrow> (instant \<Rightarrow> nat) \<Rightarrow> nat \<Rightarrow> instant \<Rightarrow> nat \<times> instant" where
  "shutdown_wait gw late drain_grace_ms now = drain_loop gw late (now + drain_grace_ms * 1000000) now"

section \<open>Lemmas\<close>

lemma div_step:
  fixes d :: nat
  assumes "0 < x" and "y \<le> x - d" and "0 < d"
  shows "(y + d - 1) div d + 1 \<le> (x + d - 1) div d"
proof (cases "d \<le> x")
  case True
  with assms have "(y + d - 1) + d \<le> x + d - 1" by linarith
  then have "((y + d - 1) + d) div d \<le> (x + d - 1) div d" by (rule div_le_mono)
  moreover have "((y + d - 1) + d) div d = (y + d - 1) div d + 1" using assms(3) by (intro div_add_self2) simp
  ultimately show ?thesis by simp
next
  case False
  with assms have "y = 0" "d \<le> x + d - 1" by auto
  then have "(y + d - 1) div d = 0" "d div d \<le> (x + d - 1) div d" using assms(3) by (simp, intro div_le_mono)
  with assms(3) show ?thesis by simp
qed

lemma drain_loop_polls:
  "fst (drain_loop gw late deadline now) \<le> (deadline - now + 50000000 - 1) div 50000000"
proof (induction gw late deadline now rule: drain_loop.induct)
  case (1 gw late deadline now)
  let ?next = "now + 50 * 1000000 + late now"
  show ?case
  proof (cases "now < deadline \<and> len_sessions (rc_sessions (g_core (gw now))) \<noteq> 0")
    case True
    then have "fst (drain_loop gw late deadline ?next) \<le> (deadline - ?next + 50000000 - 1) div 50000000"
      using 1 by blast
    moreover have "(deadline - ?next + 50000000 - 1) div 50000000 + 1 \<le> (deadline - now + 50000000 - 1) div 50000000"
      using True by (intro div_step) auto
    ultimately show ?thesis
      using True by (subst drain_loop.simps) (simp add: case_prod_unfold Let_def)
  qed (auto simp: drain_loop.simps [of gw late deadline now])
qed

lemma drain_loop_end:
  assumes "\<And>t. late t \<le> b"
  shows "now \<le> snd (drain_loop gw late deadline now)"
    and "snd (drain_loop gw late deadline now) \<ge> deadline
       \<or> len_sessions (rc_sessions (g_core (gw (snd (drain_loop gw late deadline now))))) = 0"
    and "snd (drain_loop gw late deadline now) < max (deadline + 50000000 + b) (Suc now)"
proof -
  have "now \<le> snd (drain_loop gw late deadline now)
     \<and> (snd (drain_loop gw late deadline now) \<ge> deadline
       \<or> len_sessions (rc_sessions (g_core (gw (snd (drain_loop gw late deadline now))))) = 0)
     \<and> snd (drain_loop gw late deadline now) < max (deadline + 50000000 + b) (Suc now)"
    using assms
  proof (induction gw late deadline now rule: drain_loop.induct)
    case (1 gw late deadline now)
    let ?next = "now + 50 * 1000000 + late now"
    show ?case
    proof (cases "now < deadline \<and> len_sessions (rc_sessions (g_core (gw now))) \<noteq> 0")
      case True
      have "snd (drain_loop gw late deadline now) = snd (drain_loop gw late deadline ?next)"
        using True by (subst drain_loop.simps) (simp add: case_prod_unfold Let_def)
      moreover have "?next < deadline + 50000000 + b" using True 1(2) [of now] by linarith
      ultimately show ?thesis using 1(1) [OF _ _ 1(2)] True by auto
    qed (auto simp: drain_loop.simps [of gw late deadline now])
  qed
  then show "now \<le> snd (drain_loop gw late deadline now)"
    "snd (drain_loop gw late deadline now) \<ge> deadline
       \<or> len_sessions (rc_sessions (g_core (gw (snd (drain_loop gw late deadline now))))) = 0"
    "snd (drain_loop gw late deadline now) < max (deadline + 50000000 + b) (Suc now)" by simp_all
qed

text \<open>No early exit: while sessions are connected the loop goes on.\<close>

lemma drain_loop_waits:
  assumes "\<And>t. now \<le> t \<Longrightarrow> t < deadline \<Longrightarrow> len_sessions (rc_sessions (g_core (gw t))) \<noteq> 0"
  shows "snd (drain_loop gw late deadline now) \<ge> deadline"
  using assms
proof (induction gw late deadline now rule: drain_loop.induct)
  case (1 gw late deadline now)
  then show ?case by (subst drain_loop.simps) (fastforce simp: case_prod_unfold Let_def)
qed

end
