(* ===== verification/Gateway_System.thy ===== *)
theory Gateway_System
  imports Tenant_View Gateway_Main
begin

text \<open>
  The gateway as a whole: all live session loops over the shared state, as a step relation, with the
  invariants that hold in every reachable state whatever the clients do.  One step is one arm of one
  loop, one upgrade request, one session set-up or the start of draining.
\<close>

record Sys =
  sy_gw :: Gateway
  sy_live :: "nat \<rightharpoonup> WsSession"

inductive sys_step :: "Externals \<Rightarrow> Sys \<Rightarrow> Sys \<Rightarrow> bool" for ex where
  sys_upgrade: "sys_step ex y (y\<lparr>sy_gw := snd (ws_upgrade ex now ip q (sy_gw y))\<rparr>)"
| sys_setup: "ws_setup ex now nanos q (sy_gw y) = (SetupRunning s, g) \<Longrightarrow>
    sys_step ex y \<lparr>sy_gw = g, sy_live = (sy_live y)(ws_tx s \<mapsto> s)\<rparr>"
| sys_setup_fails: "ws_setup ex now nanos q (sy_gw y) = (r, g) \<Longrightarrow> \<nexists>s. r = SetupRunning s \<Longrightarrow>
    sys_step ex y (y\<lparr>sy_gw := g\<rparr>)"
| sys_continue: "sy_live y tx = Some s \<Longrightarrow> ws_step ex ev s (sy_gw y) = (Continue, s', g) \<Longrightarrow>
    sys_step ex y \<lparr>sy_gw = g, sy_live = (sy_live y)(tx \<mapsto> s')\<rparr>"
| sys_leave: "sy_live y tx = Some s \<Longrightarrow> ws_step ex ev s (sy_gw y) = (fl, s', g) \<Longrightarrow> fl = Break \<or> fl = Panic \<Longrightarrow>
    sys_step ex y \<lparr>sy_gw = session_end ex s' g, sy_live = (sy_live y)(tx := None)\<rparr>"
| sys_stuck: "sy_live y tx = Some s \<Longrightarrow> ws_step ex ev s (sy_gw y) = (Stuck, s', g) \<Longrightarrow>
    sys_step ex y \<lparr>sy_gw = g, sy_live = (sy_live y)(tx := None)\<rparr>"
| sys_drain: "sys_step ex y (y\<lparr>sy_gw := begin_drain ex (sy_gw y)\<rparr>)"

inductive sys_reach :: "Externals \<Rightarrow> GatewayConfig \<Rightarrow> Sys \<Rightarrow> bool" for ex cfg where
  sys_reach_new: "AppState_new ex now cfg = Inr app \<Longrightarrow>
    sys_reach ex cfg \<lparr>sy_gw = Gateway_new app, sy_live = Map.empty\<rparr>"
| sys_reach_step: "sys_reach ex cfg y \<Longrightarrow> sys_step ex y y' \<Longrightarrow> sys_reach ex cfg y'"

section \<open>The invariant of the gateway\<close>

definition tenant_ids :: "GatewayConfig \<Rightarrow> string set" where
  "tenant_ids cfg = tc_id ` set (gc_tenants cfg)"

definition colon_free :: "GatewayConfig \<Rightarrow> bool" where
  "colon_free cfg \<longleftrightarrow> (\<forall>t \<in> tenant_ids cfg. CHR '':'' \<notin> set t)"

text \<open>The part of the state that the invariant speaks about; most operations do not change it.\<close>

definition g_view ::
  "Gateway \<Rightarrow> GatewayConfig \<times> Dispatcher \<times> string set \<times> RealtimeCore \<times> nat" where
  "g_view g =
     (as_cfg (g_app g), as_dispatcher (g_app g), dom (as_tenant_policy (g_app g)), g_core g, g_next_chan g)"

text \<open>The limits of a tenant in the configuration.\<close>

definition cfg_limits :: "GatewayConfig \<Rightarrow> string \<Rightarrow> TenantLimits" where
  "cfg_limits cfg t =
     (case find (\<lambda>c. tc_id c = t) (gc_tenants cfg) of Some c \<Rightarrow> tc_limits c | None \<Rightarrow> TenantLimits_default)"

definition gw_ok :: "Externals \<Rightarrow> GatewayConfig \<Rightarrow> Gateway \<Rightarrow> bool" where
  "gw_ok ex cfg g \<longleftrightarrow>
     as_cfg (g_app g) = cfg \<and> as_dispatcher (g_app g) = builtin_dispatcher ex
   \<and> dom (as_tenant_policy (g_app g)) = tenant_ids cfg
   \<and> reg_ok (g_next_chan g) (rc_sessions (g_core g)) \<and> pres_ok (cfg_limits cfg) (rc_presence (g_core g))"

definition sess_ok :: "GatewayConfig \<Rightarrow> WsSession \<Rightarrow> bool" where
  "sess_ok cfg s \<longleftrightarrow>
     ws_tenant s \<in> tenant_ids cfg \<and> ws_user_id s = dev_user \<and> ws_limits s = cfg_limits cfg (ws_tenant s)
   \<and> ws_user_key s = key_join (ws_tenant s) (ws_user_id s)
   \<and> ws_session_key s = key_join (ws_tenant s) (key_join (ws_user_id s) (ws_sid s))"

lemma gw_ok_view: "g_view g' = g_view g \<Longrightarrow> gw_ok ex cfg g' \<longleftrightarrow> gw_ok ex cfg g"
  by (simp add: gw_ok_def g_view_def)

lemma view_simps [simp]:
  "g_view (upd_metrics f g) = g_view g" "g_view (upd_chans h g) = g_view g"
  "g_view (inc_policy ls g) = g_view g" "g_view (inc_service_errors ls g) = g_view g"
  "g_view (inc_rejections ls g) = g_view g" "g_view (gauge_sessions k t g) = g_view g"
  "g_view (observe_dispatch ls d g) = g_view g" "g_view (close_chan tx g) = g_view g"
  by (simp_all add: g_view_def upd_metrics_def upd_chans_def upd_rt_def inc_policy_def inc_service_errors_def
      inc_rejections_def gauge_sessions_def observe_dispatch_def close_chan_def)

lemma view_upd_rt: "rt_core (f (g_rt g)) = g_core g \<Longrightarrow> g_view (upd_rt f g) = g_view g"
  by (simp add: g_view_def upd_rt_def)

lemma view_set_policy: "t \<in> dom (as_tenant_policy (g_app g)) \<Longrightarrow> g_view (set_policy t p g) = g_view g"
  by (auto simp: g_view_def set_policy_def)

lemmas gw_ok_simps [simp] = view_simps [THEN gw_ok_view]

lemma gw_ok_upd_sessions:
  "gw_ok ex cfg g \<Longrightarrow> reg_ok (g_next_chan g) (F (g_core g)) \<Longrightarrow>
     gw_ok ex cfg (upd_core (\<lambda>c. c\<lparr>rc_sessions := F c\<rparr>) g)"
  by (simp add: gw_ok_def upd_core_def upd_rt_def)

lemma gw_ok_upd_presence:
  "gw_ok ex cfg g \<Longrightarrow> pres_ok (cfg_limits cfg) (F (g_core g)) \<Longrightarrow> gw_ok ex cfg (upd_core (\<lambda>c. c\<lparr>rc_presence := F c\<rparr>) g)"
  by (simp add: gw_ok_def upd_core_def upd_rt_def)

lemma gw_okD:
  assumes "gw_ok ex cfg g"
  shows "as_cfg (g_app g) = cfg" "as_dispatcher (g_app g) = builtin_dispatcher ex"
    "dom (as_tenant_policy (g_app g)) = tenant_ids cfg"
    "reg_ok (g_next_chan g) (rc_sessions (g_core g))" "pres_ok (cfg_limits cfg) (rc_presence (g_core g))"
  using assms by (simp_all add: gw_ok_def)

lemma gw_ok_remove: "gw_ok ex cfg g \<Longrightarrow> gw_own k = u \<Longrightarrow>
  gw_ok ex cfg (upd_core (\<lambda>c. c\<lparr>rc_sessions := snd (remove_session u k (rc_sessions c))\<rparr>) g)"
  by (rule gw_ok_upd_sessions) (simp_all add: gw_okD reg_ok_remove)

lemma gw_ok_pres_cleanup: "gw_ok ex cfg g \<Longrightarrow> iter_ok it \<Longrightarrow> tenant_of k = t \<Longrightarrow>
  gw_ok ex cfg (upd_core (\<lambda>c. c\<lparr>rc_presence := cleanup_session it t u k (rc_presence c)\<rparr>) g)"
  by (rule gw_ok_upd_presence) (simp_all add: gw_okD pres_ok_cleanup)

lemma gw_ok_cleanup:
  "gw_ok ex cfg g \<Longrightarrow> iter_ok (ex_iter ex) \<Longrightarrow> gw_own k = u \<Longrightarrow> tenant_of k = t \<Longrightarrow>
     gw_ok ex cfg (session_cleanup ex t u k g)"
  by (simp add: session_cleanup_def Let_def gw_ok_pres_cleanup gw_ok_remove)

lemma colon_freeD: "colon_free cfg \<Longrightarrow> sess_ok cfg s \<Longrightarrow> CHR '':'' \<notin> set (ws_tenant s)"
  by (simp add: colon_free_def sess_ok_def)

lemma sess_keys:
  assumes "colon_free cfg" and "sess_ok cfg s"
  shows "gw_own (ws_session_key s) = ws_user_key s" "tenant_of (ws_session_key s) = ws_tenant s"
    "tenant_of (ws_user_key s) = ws_tenant s"
  using assms(2) colon_freeD [OF assms] by (simp_all add: sess_ok_def gw_own_key_join)

lemma gw_ok_end:
  "gw_ok ex cfg g \<Longrightarrow> iter_ok (ex_iter ex) \<Longrightarrow> colon_free cfg \<Longrightarrow> sess_ok cfg s \<Longrightarrow>
     gw_ok ex cfg (session_end ex s g)"
  by (simp add: session_end_def gw_ok_cleanup sess_keys)

section \<open>The arms of the loop\<close>

text \<open>
  What every arm of session \<open>s\<close> keeps, from the gateway \<open>g\<close> it starts in to an intermediate state: the
  invariant, the identity of the session, and everything that is not its tenant's.
\<close>

definition mid_ok :: "Externals \<Rightarrow> GatewayConfig \<Rightarrow> WsSession \<Rightarrow> Gateway \<Rightarrow> WsSession \<Rightarrow> Gateway \<Rightarrow> bool" where
  "mid_ok ex cfg s g s' g' \<longleftrightarrow>
     gw_ok ex cfg g' \<and> sess_ok cfg s' \<and> ws_tx s' = ws_tx s \<and> ws_tenant s' = ws_tenant s
   \<and> rc_sessions (g_core g') = rc_sessions (g_core g) \<and> acts_for (ws_tx s) (ws_tenant s) g g'"

definition arm_ok :: "Externals \<Rightarrow> GatewayConfig \<Rightarrow> WsSession \<Rightarrow> Gateway \<Rightarrow> loop_result \<Rightarrow> bool" where
  "arm_ok ex cfg s g res \<longleftrightarrow> (case res of (fl, s', g') \<Rightarrow> fl \<noteq> Panic \<and> mid_ok ex cfg s g s' g')"

lemma arm_ok_simps [simp]: "arm_ok ex cfg s g (fl, s', g') \<longleftrightarrow> fl \<noteq> Panic \<and> mid_ok ex cfg s g s' g'"
  by (simp add: arm_ok_def)

lemma reg_ok_conns: "reg_ok n (rc_sessions (rt_core rt)) \<Longrightarrow> conns_distinct rt"
  by (simp add: conns_distinct_def reg_ok_def session_tx_def get_session_def option.map_comp comp_def inj_on_def)

lemma mid_ok_refl: "gw_ok ex cfg g \<Longrightarrow> sess_ok cfg s \<Longrightarrow> mid_ok ex cfg s g s g"
  by (simp add: mid_ok_def)

lemma mid_ok_simps [simp]:
  "mid_ok ex cfg s g s' (inc_policy ls g') \<longleftrightarrow> mid_ok ex cfg s g s' g'"
  "mid_ok ex cfg s g s' (inc_service_errors ls g') \<longleftrightarrow> mid_ok ex cfg s g s' g'"
  "mid_ok ex cfg s g s' (observe_dispatch ls d g') \<longleftrightarrow> mid_ok ex cfg s g s' g'"
  "gm_draining (f (as_metrics (g_app g'))) = g_drain g' \<Longrightarrow> mid_ok ex cfg s g s' (upd_metrics f g') \<longleftrightarrow> mid_ok ex cfg s g s' g'"
  "mid_ok ex cfg s g (s'\<lparr>ws_sess := x\<rparr>) g' \<longleftrightarrow> mid_ok ex cfg s g s' g'"
  "mid_ok ex cfg s g (s'\<lparr>ws_hot_op_counter := n\<rparr>) g' \<longleftrightarrow> mid_ok ex cfg s g s' g'"
  "mid_ok ex cfg s g (s'\<lparr>ws_wire := ms\<rparr>) g' \<longleftrightarrow> mid_ok ex cfg s g s' g'"
  by (simp_all add: mid_ok_def sess_ok_def)

lemma mid_ok_step:
  "mid_ok ex cfg s g s' g' \<Longrightarrow> gw_ok ex cfg g'' \<Longrightarrow> acts_for (ws_tx s') (ws_tenant s') g' g'' \<Longrightarrow>
     rc_sessions (g_core g'') = rc_sessions (g_core g') \<Longrightarrow> mid_ok ex cfg s g s' g''"
  by (auto simp: mid_ok_def intro: acts_for_trans)

lemma mid_ok_set_policy:
  "mid_ok ex cfg s g s' g' \<Longrightarrow> mid_ok ex cfg s g s' (set_policy (ws_tenant s') p g')"
proof -
  assume mid: "mid_ok ex cfg s g s' g'"
  then have "ws_tenant s' \<in> dom (as_tenant_policy (g_app g'))"
    unfolding mid_ok_def sess_ok_def gw_ok_def by metis
  then have "gw_ok ex cfg (set_policy (ws_tenant s') p g') \<longleftrightarrow> gw_ok ex cfg g'"
    by (intro gw_ok_view view_set_policy)
  with mid have "gw_ok ex cfg (set_policy (ws_tenant s') p g')" by (simp add: mid_ok_def)
  then show ?thesis by (rule mid_ok_step [OF mid _ acts_for_set_policy]) (simp add: set_policy_def)
qed

lemma mid_ok_out_send:
  assumes "mid_ok ex cfg s g s' g'"
  shows "mid_ok ex cfg s g s' (upd_chans (\<lambda>_. snd (send_await w (ws_tx s') m (rt_chans (g_rt g')))) g')"
proof (rule mid_ok_step [OF assms _ acts_for_chans])
  fix c
  assume "chan_log ((g_rt g')\<lparr>rt_chans := snd (send_await w (ws_tx s') m (rt_chans (g_rt g')))\<rparr>) c
    \<noteq> chan_log (g_rt g') c"
  then show "c = ws_tx s' \<or> c \<in> tenant_txs g' (ws_tenant s')" using send_await_log by blast
qed (use assms in \<open>simp_all add: mid_ok_def\<close>)

lemma out_send_arm:
  "mid_ok ex cfg s g s' g' \<Longrightarrow> next \<noteq> Panic \<Longrightarrow> arm_ok ex cfg s g (out_send next m s' g')"
  by (simp add: arm_ok_def out_send_def Let_def case_prod_unfold mid_ok_out_send)

lemma send_error_arm:
  "mid_ok ex cfg s g s' g' \<Longrightarrow> next \<noteq> Panic \<Longrightarrow> arm_ok ex cfg s g (send_error ex next code m s' g')"
  by (simp add: send_error_def out_send_arm)

lemma hot_error_arm:
  "mid_ok ex cfg s g s' g' \<Longrightarrow> next \<noteq> Panic \<Longrightarrow> arm_ok ex cfg s g (hot_error ex p next code m s' g')"
  by (simp add: hot_error_def send_error_arm)

text \<open>Rooms and session keys of a tenant lead only to channels of that tenant.\<close>

lemma room_txs_tenant:
  assumes "gw_ok ex cfg g" and "CHR '':'' \<notin> set t" and "c \<in> room_txs (g_rt g) (key_join t room)"
  shows "c \<in> tenant_txs g t"
proof -
  from assms(3) obtain k e where k: "k \<in> members (rc_presence (g_core g)) (key_join t room)"
    and e: "sr_sessions (rc_sessions (g_core g)) k = Some e" "conn_tx (se_conn e) = c"
    by (auto simp: room_txs_def session_tx_def get_session_def)
  from gw_okD(5) [OF assms(1)] k have "tenant_of k = tenant_of (key_join t room)" by (auto simp: pres_ok_def)
  moreover from gw_okD(4) [OF assms(1)] e have "tenant_of k = se_tenant_id e" by (auto simp: reg_ok_def)
  ultimately show ?thesis using e assms(2) by (auto simp: tenant_txs_def)
qed

lemma session_tx_tenant:
  assumes "gw_ok ex cfg g" and "CHR '':'' \<notin> set t" and "session_tx (g_rt g) (key_join t x) = Some c"
  shows "c \<in> tenant_txs g t"
proof -
  from assms(3) obtain e where e: "sr_sessions (rc_sessions (g_core g)) (key_join t x) = Some e" "conn_tx (se_conn e) = c"
    by (auto simp: session_tx_def get_session_def)
  with gw_okD(4) [OF assms(1)] have "tenant_of (key_join t x) = se_tenant_id e" by (auto simp: reg_ok_def)
  with e assms(2) show ?thesis by (auto simp: tenant_txs_def)
qed

lemma dispatch_text_confined:
  assumes "iter_ok (ex_iter ex)" and "dm_ok (ps_room_to_sessions (rc_presence (rt_core rt)))" and "conns_distinct rt"
    and "dispatch_text (builtin_dispatcher ex) w ctx env rt = (res, rt')" and "chan_log rt' c \<noteq> chan_log rt c"
  shows "\<exists>room. c \<in> room_txs rt (key_join (ctx_tenant ctx) room)"
proof (cases "env_svc env = ''chat''")
  case True
  with assms(4) have "chat_handle (ex_iter ex) (ex_encode ex) (ex_send_req ex) w ctx env rt = (res, rt')"
    by (simp add: dispatch_text_def ChatService_def)
  from chat_success [OF assms(1-3) this] chat_failure [OF this] assms(5) show ?thesis
    by (cases "\<exists>room body. chat_good (ex_encode ex) (ex_send_req ex) (ctx_user ctx) env room body")
      (auto split: if_splits)
next
  case False
  with assms(4,5) show ?thesis by (simp add: dispatch_text_def)
qed

lemma dispatch_hot_confined:
  assumes "iter_ok (ex_iter ex)" and "dm_ok (ps_room_to_sessions (rc_presence (rt_core rt)))" and "conns_distinct rt"
    and "dispatch_hot (builtin_dispatcher ex) w ctx frame rt = (res, rt')" and "chan_log rt' c \<noteq> chan_log rt c"
  shows "(\<exists>room. c \<in> room_txs rt (key_join (ctx_tenant ctx) room)) \<or> session_tx rt (ctx_session_key ctx) = Some c"
proof (cases "hf_svc_id frame = 1")
  case True
  with assms(4) have "echo_handle (ex_iter ex) (ex_encode ex) w ctx frame rt = (res, rt')"
    by (simp add: dispatch_hot_def EchoBinaryService_def)
  from echo_outcome [OF assms(1-3) this refl, of c] assms(5) show ?thesis
    by (auto split: if_splits option.splits)
next
  case False
  with assms(4,5) show ?thesis by (simp add: dispatch_hot_def Let_def)
qed

lemma gw_ok_tables:
  assumes "gw_ok ex cfg g"
  shows "dm_ok (ps_room_to_sessions (rc_presence (g_core g)))" and "conns_distinct (g_rt g)"
    and "finite (dom (sr_sessions (rc_sessions (g_core g))))"
  using gw_okD(4,5) [OF assms] reg_ok_conns by (auto simp: pres_ok_def reg_ok_def)

text \<open>A handler that keeps the tables and stays within the tenant keeps everything.\<close>

lemma mid_ok_handler:
  assumes "mid_ok ex cfg s g s' g'" and "rt_core rt = g_core g'"
    and "\<And>c. chan_log rt c \<noteq> chan_log (g_rt g') c \<Longrightarrow> c \<in> tenant_txs g' (ws_tenant s')"
  shows "mid_ok ex cfg s g s' (upd_rt (\<lambda>_. rt) g')"
proof (rule mid_ok_step [OF assms(1) _ acts_for_rt [OF assms(2)]])
  have "gw_ok ex cfg (upd_rt (\<lambda>_. rt) g') \<longleftrightarrow> gw_ok ex cfg g'"
    by (intro gw_ok_view view_upd_rt) (rule assms(2))
  with assms(1) show "gw_ok ex cfg (upd_rt (\<lambda>_. rt) g')" by (simp add: mid_ok_def)
qed (use assms(2,3) in \<open>simp_all\<close>)

lemma ws_dispatch_text_arm:
  assumes it: "iter_ok (ex_iter ex)" and cf: "colon_free cfg" and mid: "mid_ok ex cfg s g s' g'"
  shows "arm_ok ex cfg s g (ws_dispatch_text ex w dur env s' g')"
proof -
  have ok: "gw_ok ex cfg g'" and so: "sess_ok cfg s'" using mid by (simp_all add: mid_ok_def)
  let ?ctx = "ws_ctx s' (st_active_room (ws_sess s'))"
  obtain res rt where d: "dispatch_text (builtin_dispatcher ex) w ?ctx env (g_rt g') = (Some res, rt)"
    and core: "rt_core rt = g_core g'" using text_dispatch.handle_result by blast
  have "mid_ok ex cfg s g s' (upd_rt (\<lambda>_. rt) g')"
  proof (rule mid_ok_handler [OF mid core])
    fix c assume "chan_log rt c \<noteq> chan_log (g_rt g') c"
    from dispatch_text_confined [OF it gw_ok_tables(1,2) [OF ok] d this]
    show "c \<in> tenant_txs g' (ws_tenant s')"
      using room_txs_tenant [OF ok colon_freeD [OF cf so]] by (auto simp: ws_ctx_def RealtimeCtx_new_def)
  qed
  then show ?thesis
    using d gw_okD(2) [OF ok] by (cases res) (simp_all add: ws_dispatch_text_def Let_def send_error_arm)
qed

lemma ws_dispatch_hot_arm:
  assumes it: "iter_ok (ex_iter ex)" and cf: "colon_free cfg" and mid: "mid_ok ex cfg s g s' g'"
  shows "arm_ok ex cfg s g (ws_dispatch_hot ex p w dur frame s' g')"
proof -
  have ok: "gw_ok ex cfg g'" and so: "sess_ok cfg s'" using mid by (simp_all add: mid_ok_def)
  note c = colon_freeD [OF cf so]
  let ?ctx = "ws_ctx s' (st_active_room (ws_sess s'))"
  obtain res rt where d: "dispatch_hot (builtin_dispatcher ex) w ?ctx frame (g_rt g') = (Some res, rt)"
    and core: "rt_core rt = g_core g'" using hot_dispatch.handle_result by blast
  have "mid_ok ex cfg s g s' (upd_rt (\<lambda>_. rt) g')"
  proof (rule mid_ok_handler [OF mid core])
    fix x assume "chan_log rt x \<noteq> chan_log (g_rt g') x"
    from dispatch_hot_confined [OF it gw_ok_tables(1,2) [OF ok] d this]
    show "x \<in> tenant_txs g' (ws_tenant s')"
      using room_txs_tenant [OF ok c] session_tx_tenant [OF ok c] by (auto simp: ws_ctx_def RealtimeCtx_new_def)
  qed
  then show ?thesis
    using d gw_okD(2) [OF ok] by (cases res) (simp_all add: ws_dispatch_hot_def Let_def hot_error_arm)
qed

lemma mid_ok_presence:
  assumes "mid_ok ex cfg s g s' g'" and "pres_ok (cfg_limits cfg) p"
    and "\<And>t. t \<noteq> ws_tenant s' \<Longrightarrow> pres_view t p = pres_view t (rc_presence (g_core g'))"
  shows "mid_ok ex cfg s g s' (upd_core (\<lambda>c. c\<lparr>rc_presence := p\<rparr>) g')"
  using assms
  by (intro mid_ok_step [OF assms(1)] gw_ok_upd_presence acts_for_presence) (simp_all add: mid_ok_def upd_core_def)

lemma ctx_key_tenants:
  assumes "CHR '':'' \<notin> set (ws_tenant s)"
  shows "tenant_of (ctx_session_key (ws_ctx s a)) = ws_tenant s" "tenant_of (ctx_room_key (ws_ctx s a) room) = ws_tenant s"
    "tenant_of (ctx_user_key (ws_ctx s a)) = ws_tenant s" "ctx_tenant (ws_ctx s a) = ws_tenant s"
  using assms by (simp_all add: ws_ctx_def RealtimeCtx_new_def ctx_room_key_def)

lemma ws_join_arm:
  assumes cf: "colon_free cfg" and mid: "mid_ok ex cfg s g s' g'"
  shows "arm_ok ex cfg s g (ws_join ex env s' g')"
proof -
  have ok: "gw_ok ex cfg g'" and so: "sess_ok cfg s'" using mid by (simp_all add: mid_ok_def)
  let ?room = "case env_room env of Some r \<Rightarrow> r | None \<Rightarrow> ''default''"
  let ?ctx = "ws_ctx s' (st_active_room (ws_sess s'))"
  let ?j = "try_join (ctx_tenant ?ctx) (ctx_room_key ?ctx ?room) (ctx_user_key ?ctx) (ctx_session_key ?ctx)
    (ws_limits s') (rc_presence (g_core g'))"
  note keys = ctx_key_tenants [OF colon_freeD [OF cf so]]
  have "ws_limits s' = cfg_limits cfg (ws_tenant s')" using so by (simp add: sess_ok_def)
  then have "pres_ok (cfg_limits cfg) (snd ?j)"
    using pres_ok_join [OF gw_okD(5) [OF ok], of "ctx_room_key ?ctx ?room" "ws_tenant s'" "ctx_user_key ?ctx"]
    by (simp add: keys)
  moreover have "pres_view t (snd ?j) = pres_view t (rc_presence (g_core g'))" if "t \<noteq> ws_tenant s'" for t
    using that by (intro pres_view_join) (simp_all add: keys)
  ultimately have "mid_ok ex cfg s g s' (upd_core (\<lambda>c. c\<lparr>rc_presence := snd ?j\<rparr>) g')"
    by (rule mid_ok_presence [OF mid])
  then have mid': "mid_ok ex cfg s g s' (upd_rt (\<lambda>_. snd (join_room_with_limits ?ctx ?room (ws_limits s') (g_rt g'))) g')"
    by (simp add: join_room_with_limits_def Let_def case_prod_unfold upd_rt_def upd_core_def)
  show ?thesis
    using mid' unfolding ws_join_def Let_def case_prod_unfold
    by (cases "fst (join_room_with_limits ?ctx ?room (ws_limits s') (g_rt g'))")
      (simp_all add: out_send_arm send_error_arm)
qed

lemma ws_leave_arm:
  assumes cf: "colon_free cfg" and mid: "mid_ok ex cfg s g s' g'"
  shows "arm_ok ex cfg s g (ws_leave ex s' g')"
proof (cases "st_active_room (ws_sess s')")
  case None
  with mid show ?thesis by (simp add: ws_leave_def Let_def out_send_arm)
next
  case (Some room)
  have ok: "gw_ok ex cfg g'" and so: "sess_ok cfg s'" using mid by (simp_all add: mid_ok_def)
  let ?s = "s'\<lparr>ws_sess := (ws_sess s')\<lparr>st_active_room := None\<rparr>\<rparr>"
  let ?ctx = "ws_ctx ?s None"
  let ?p = "leave (ctx_tenant ?ctx) (ctx_room_key ?ctx room) (ctx_user_key ?ctx) (ctx_session_key ?ctx)
    (rc_presence (g_core g'))"
  have keys: "CHR '':'' \<notin> set (ws_tenant ?s)" using colon_freeD [OF cf so] by simp
  have "pres_view t ?p = pres_view t (rc_presence (g_core g'))" if "t \<noteq> ws_tenant s'" for t
    using that by (intro pres_view_leave) (simp_all add: ctx_key_tenants [OF keys])
  moreover have "pres_ok (cfg_limits cfg) ?p"
    by (rule pres_ok_leave [OF gw_okD(5) [OF ok]]) (simp add: ctx_key_tenants [OF keys])
  ultimately have "mid_ok ex cfg s g s' (upd_core (\<lambda>c. c\<lparr>rc_presence := ?p\<rparr>) g')"
    by (intro mid_ok_presence [OF mid])
  then have "mid_ok ex cfg s g s' (upd_rt (leave_room ?ctx room) g')"
    by (simp add: leave_room_def [abs_def] Let_def upd_rt_def upd_core_def)
  with Some show ?thesis by (simp add: ws_leave_def Let_def out_send_arm)
qed

lemma tenant_policy_Some:
  "gw_ok ex cfg g \<Longrightarrow> sess_ok cfg s \<Longrightarrow> \<exists>p. tenant_policy (g_app g) (ws_tenant s) = Some p"
  using gw_okD(3) [of ex cfg g] by (auto simp: tenant_policy_def sess_ok_def)

lemma ws_text_arm:
  assumes it: "iter_ok (ex_iter ex)" and cf: "colon_free cfg" and ok: "gw_ok ex cfg g" and so: "sess_ok cfg s"
  shows "arm_ok ex cfg s g (ws_text ex now w dur env n s g)"
proof -
  define limited where "limited = conn_allow now (st_conn_limiter (ws_sess s))"
  define s' where "s' = s\<lparr>ws_sess := (ws_sess s)\<lparr>st_conn_limiter := snd limited\<rparr>\<rparr>"
  have mid: "mid_ok ex cfg s g s' g" using mid_ok_refl [OF ok so] by (simp add: s'_def)
  have t: "ws_tenant s' = ws_tenant s" by (simp add: s'_def)
  obtain p where p: "tenant_policy (g_app g) (ws_tenant s') = Some p" using tenant_policy_Some [OF ok so] t by auto
  obtain d p' where d: "check_text now p n (env_svc env) (env_msg_type env) = (d, p')" by fastforce
  define g' where "g' = set_policy (ws_tenant s') p' g"
  have mid': "mid_ok ex cfg s g s' g'" unfolding g'_def by (rule mid_ok_set_policy [OF mid])
  have eq: "ws_text ex now w dur env n s g =
    (if \<not> fst limited then (Continue, s', inc_policy (ext_labels s' ''ext'' ''drop'' ''conn_rate_limit'') g)
     else case d of
        PD_Drop \<Rightarrow> (Continue, s', inc_policy (ext_labels s' ''ext'' ''drop'' ''policy'') g')
      | PD_Reject code msg \<Rightarrow>
          send_error ex Continue (as_str code) msg s' (inc_policy (ext_labels s' ''ext'' ''reject'' (as_str code)) g')
      | PD_Close code msg \<Rightarrow>
          send_error ex Break (as_str code) msg s' (inc_policy (ext_labels s' ''ext'' ''close'' (as_str code)) g')
      | PD_Pass \<Rightarrow>
          if env_svc env = ''room'' \<and> env_msg_type env = ''join'' then ws_join ex env s' g'
          else if env_svc env = ''room'' \<and> env_msg_type env = ''leave'' then ws_leave ex s' g'
          else ws_dispatch_text ex w dur env s' g')"
    unfolding ws_text_def limited_def [symmetric] Let_def case_prod_unfold s'_def [symmetric] p option.case d
      fst_conv snd_conv g'_def [symmetric] by (rule refl)
  show ?thesis
    using mid mid' ws_join_arm [OF cf mid'] ws_leave_arm [OF cf mid'] ws_dispatch_text_arm [OF it cf mid']
    unfolding eq by (cases d) (simp_all add: send_error_arm)
qed

lemma ws_hot_arm:
  assumes it: "iter_ok (ex_iter ex)" and cf: "colon_free cfg" and ok: "gw_ok ex cfg g" and so: "sess_ok cfg s"
  shows "arm_ok ex cfg s g (ws_hot ex now w dur frame n s g)"
proof -
  obtain p where p: "tenant_policy (g_app g) (ws_tenant s) = Some p" using tenant_policy_Some [OF ok so] by auto
  obtain d p' where d: "check_hot now p n (hf_svc_id frame) (hf_opcode frame) = (d, p')" by fastforce
  let ?g = "set_policy (ws_tenant s) p' g"
  have mid: "mid_ok ex cfg s g s ?g" by (rule mid_ok_set_policy [OF mid_ok_refl [OF ok so]])
  have "arm_ok ex cfg s g (ws_dispatch_hot ex p' w dur frame s ?g)"
    by (rule ws_dispatch_hot_arm [OF it cf mid])
  with mid show ?thesis unfolding ws_hot_def p option.case d Let_def prod.case
    by (cases d) (simp_all add: hot_error_arm)
qed

lemma mid_ok_touch:
  "gw_ok ex cfg g \<Longrightarrow> sess_ok cfg s \<Longrightarrow> arm_ok ex cfg (s\<lparr>ws_sess := x\<rparr>) g res \<Longrightarrow> arm_ok ex cfg s g res"
  by (cases res) (simp add: mid_ok_def)

lemma ws_incoming_arm:
  assumes it: "iter_ok (ex_iter ex)" and cf: "colon_free cfg" and ok: "gw_ok ex cfg g" and so: "sess_ok cfg s"
  shows "arm_ok ex cfg s g (ws_incoming ex now w dur m s g)"
proof -
  define s' where "s' = s\<lparr>ws_sess := (ws_sess s)\<lparr>st_last_activity := now\<rparr>\<rparr>"
  have so': "sess_ok cfg s'" using so by (simp add: s'_def sess_ok_def)
  note mid = mid_ok_refl [OF ok so']
  obtain r where r: "decode (ex_envelope ex) m = Some r" using decode_total by blast
  have "arm_ok ex cfg s' g (ws_incoming ex now w dur m s g)"
  proof (cases r)
    case (Inl e)
    with mid show ?thesis by (simp add: ws_incoming_def r s'_def [symmetric] send_error_arm)
  next
    case (Inr i)
    then show ?thesis
      using mid ws_text_arm [OF it cf ok so'] ws_hot_arm [OF it cf ok so']
      by (cases i) (simp_all add: ws_incoming_def r s'_def [symmetric] out_send_arm)
  qed
  then show ?thesis unfolding s'_def by (rule mid_ok_touch [OF ok so])
qed

lemma ws_write_arm:
  assumes ok: "gw_ok ex cfg g" and so: "sess_ok cfg s"
  shows "arm_ok ex cfg s g (ws_write outcome s g)"
proof (cases "rt_chans (g_rt g) (ws_tx s)")
  case None
  with mid_ok_refl [OF ok so] show ?thesis by (simp add: ws_write_def)
next
  case (Some c)
  let ?g = "upd_chans (\<lambda>cs. cs(ws_tx s \<mapsto> ch_take 1 c)) g"
  have "acts_for (ws_tx s) (ws_tenant s) g ?g" by (rule acts_for_chans) (simp add: ch_take_log [OF Some])
  then have "mid_ok ex cfg s g s ?g" using ok so by (simp add: mid_ok_def)
  with Some mid_ok_refl [OF ok so] show ?thesis
    by (cases "ch_queue c"; cases outcome) (simp_all add: ws_write_def)
qed

lemma ws_step_arm:
  assumes "iter_ok (ex_iter ex)" and "colon_free cfg" and "gw_ok ex cfg g" and "sess_ok cfg s"
  shows "arm_ok ex cfg s g (ws_step ex ev s g)"
  using mid_ok_refl [OF assms(3,4)] ws_write_arm [OF assms(3,4)] ws_incoming_arm [OF assms]
  by (cases "(ex, ev, s, g)" rule: ws_step.cases) (auto simp: out_send_arm ws_idle_def send_error_arm)

section \<open>Set-up\<close>

text \<open>A gateway in which the newest channel, \<open>tx\<close>, is still unused.\<close>

definition fresh_chan :: "Externals \<Rightarrow> GatewayConfig \<Rightarrow> nat \<Rightarrow> Gateway \<Rightarrow> bool" where
  "fresh_chan ex cfg tx g \<longleftrightarrow>
     gw_ok ex cfg g \<and> g_next_chan g = Suc tx \<and> reg_ok tx (rc_sessions (g_core g))
   \<and> rt_chans (g_rt g) tx = Some (mpsc_channel 1024)"

lemma gw_ok_next: "gw_ok ex cfg g \<Longrightarrow> g_next_chan g \<le> n \<Longrightarrow> gw_ok ex cfg (g\<lparr>g_next_chan := n\<rparr>)"
  using reg_ok_mono [OF gw_okD(4), of ex cfg g n] by (simp add: gw_ok_def)

lemma fresh_chan_new:
  assumes "gw_ok ex cfg g" and "new_channel g = (tx, g')"
  shows "fresh_chan ex cfg tx g'"
proof -
  let ?h = "upd_chans (\<lambda>cs. cs(tx \<mapsto> mpsc_channel 1024)) g"
  have tx: "tx = g_next_chan g" and g': "g' = ?h\<lparr>g_next_chan := Suc tx\<rparr>"
    using assms(2) by (auto simp: new_channel_def Let_def)
  have n: "g_next_chan ?h = tx" "g_core ?h = g_core g" by (simp_all add: tx upd_chans_def upd_rt_def)
  have "gw_ok ex cfg g'" unfolding g' using assms(1) n by (intro gw_ok_next) simp_all
  moreover have "rt_chans (g_rt g') tx = Some (mpsc_channel 1024)" by (simp add: g' upd_chans_def upd_rt_def)
  ultimately show ?thesis using gw_okD(4) [OF assms(1)] n by (simp add: fresh_chan_def g' tx)
qed

lemma fresh_chan_metrics [simp]:
  "fresh_chan ex cfg tx (upd_metrics f g) \<longleftrightarrow> fresh_chan ex cfg tx g"
  "fresh_chan ex cfg tx (inc_policy ls g) \<longleftrightarrow> fresh_chan ex cfg tx g"
  "fresh_chan ex cfg tx (gauge_sessions k t g) \<longleftrightarrow> fresh_chan ex cfg tx g"
  by (simp_all add: fresh_chan_def gw_ok_def upd_metrics_def inc_policy_def gauge_sessions_def)

lemma fresh_chan_chans:
  "fresh_chan ex cfg tx g \<Longrightarrow> tx' \<noteq> tx \<Longrightarrow> fresh_chan ex cfg tx (upd_chans (\<lambda>cs. snd (try_send tx' m cs)) g)"
  by (simp add: fresh_chan_def) (simp add: upd_chans_def upd_rt_def try_send_other)

lemma fresh_chan_presence:
  "fresh_chan ex cfg tx g \<Longrightarrow> iter_ok it \<Longrightarrow> tenant_of k = t \<Longrightarrow>
     fresh_chan ex cfg tx (upd_core (\<lambda>c. c\<lparr>rc_presence := cleanup_session it t u k (rc_presence c)\<rparr>) g)"
  by (simp add: fresh_chan_def gw_ok_pres_cleanup) (simp add: upd_core_def upd_rt_def)

lemma fresh_chan_kick:
  assumes "fresh_chan ex cfg tx g" and "iter_ok (ex_iter ex)" and "tenant_of u = t"
  shows "fresh_chan ex cfg tx (kick_oldest ex t u tr g)"
proof -
  obtain ev reg where ev: "evict_oldest (ex_iter ex) u (rc_sessions (g_core g)) = (ev, reg)" by fastforce
  let ?g = "upd_core (\<lambda>c. c\<lparr>rc_sessions := reg\<rparr>) g"
  have "reg_ok tx reg" "reg_ok (g_next_chan g) reg"
    using assms(1) ev reg_ok_evict [OF _ assms(2), of _ "rc_sessions (g_core g)" u]
    by (auto simp: fresh_chan_def gw_ok_def)
  then have "gw_ok ex cfg ?g" using assms(1) by (intro gw_ok_upd_sessions) (simp_all add: fresh_chan_def)
  with assms(1) \<open>reg_ok tx reg\<close> have fresh: "fresh_chan ex cfg tx ?g"
    by (simp add: fresh_chan_def) (simp add: upd_core_def upd_rt_def)
  show ?thesis
  proof (cases ev)
    case None
    with fresh ev show ?thesis by (simp add: kick_oldest_def)
  next
    case (Some vc)
    obtain v c where vc: "vc = (v, c)" by fastforce
    then obtain e where "sr_sessions (rc_sessions (g_core g)) v = Some e" "c = se_conn e"
      using evict_oldest_entry ev Some by (metis fst_conv)
    with assms(1) have tx: "conn_tx c \<noteq> tx" by (fastforce simp: fresh_chan_def reg_ok_def)
    have "reg_ok tx (rc_sessions (g_core g))" using assms(1) by (simp add: fresh_chan_def)
    then have "tenant_of v = t"
      using evict_oldest_owner [OF _ assms(2)] ev Some vc assms(3) by (metis fst_conv tenant_of_gw_own)
    with tx fresh Some vc ev show ?thesis
      by (simp add: kick_oldest_def Let_def fresh_chan_presence [OF _ assms(2)] fresh_chan_chans)
  qed
qed

lemma find_tenant: "t \<in> tenant_ids cfg \<Longrightarrow> \<exists>c. find (\<lambda>c. tc_id c = t) (gc_tenants cfg) = Some c"
  by (cases "find (\<lambda>c. tc_id c = t) (gc_tenants cfg)") (auto simp: tenant_ids_def find_None_iff)

text \<open>How a set-up for tenant \<open>t\<close> with channel \<open>tx\<close> may end.\<close>

definition setup_ok :: "Externals \<Rightarrow> GatewayConfig \<Rightarrow> nat \<Rightarrow> string \<Rightarrow> Gateway \<Rightarrow> Setup \<times> Gateway \<Rightarrow> bool" where
  "setup_ok ex cfg tx t g res \<longleftrightarrow>
     gw_ok ex cfg (snd res) \<and> fst res \<noteq> SetupPanic \<and> fst res \<noteq> SetupStuck \<and> acts_for tx t g (snd res)
   \<and> (\<forall>s. fst res = SetupRunning s \<longrightarrow>
        sess_ok cfg s \<and> ws_tenant s = t \<and> ws_tx s = tx \<and> tx < g_next_chan (snd res))"

lemma setup_ok_after: "acts_for tx t g g' \<Longrightarrow> setup_ok ex cfg tx t g' res \<Longrightarrow> setup_ok ex cfg tx t g res"
  by (auto simp: setup_ok_def intro: acts_for_trans)

lemma ws_admit_ok:
  assumes fresh: "fresh_chan ex cfg tx g" and t: "t \<in> tenant_ids cfg" "CHR '':'' \<notin> set t"
    and ping: "gw_ping_interval_ms (gc_gateway cfg) \<noteq> 0"
    and u: "u = dev_user"
  shows "setup_ok ex cfg tx t g (ws_admit ex now p t u sid tr tx g)"
proof -
  have ok: "gw_ok ex cfg g" using fresh by (simp add: fresh_chan_def)
  obtain tc where tc: "find (\<lambda>c. tc_id c = t) (gc_tenants (as_cfg (g_app g))) = Some tc"
    using find_tenant [OF t(1)] gw_okD(1) [OF ok] by auto
  have lim: "tc_limits tc = cfg_limits cfg t" using tc gw_okD(1) [OF ok] by (simp add: cfg_limits_def)
  obtain r reg where ins: "try_insert t (key_join t u) (key_join t (key_join u sid)) \<lparr>conn_tx = tx\<rparr>
    (tl_max_sessions_total (tc_limits tc)) (rc_sessions (g_core g)) = (r, reg)" by fastforce
  let ?g = "upd_core (\<lambda>c. c\<lparr>rc_sessions := reg\<rparr>) g"
  have "reg_ok (g_next_chan g) reg"
    using reg_ok_insert [of tx "rc_sessions (g_core g)" "key_join t (key_join u sid)" t "key_join t u"
        "tl_max_sessions_total (tc_limits tc)"] fresh t(2) ins u
    by (simp add: fresh_chan_def gw_own_key_join)
  then have ok': "gw_ok ex cfg ?g" by (rule gw_ok_upd_sessions [OF ok])
  have acts: "acts_for tx t g ?g"
  proof (rule acts_for_sessions)
    show "reg_view t' reg = reg_view t' (rc_sessions (g_core g))" if "t' \<noteq> t" for t'
      using that ins t(2) reg_view_insert [of "key_join t (key_join u sid)" t' "key_join t u" t]
      by (metis snd_conv tenant_of_key_join)
    show "sr_sessions (rc_sessions (g_core g)) k = Some e \<or> conn_tx (se_conn e) = tx \<and> se_tenant_id e = t"
      if "sr_sessions reg k = Some e" for k e
      using ins that by (auto simp: try_insert_eq split: if_splits)
  qed
  have ch: "rt_chans (g_rt ?g) tx = Some (mpsc_channel 1024)"
    using fresh by (simp add: fresh_chan_def upd_core_def upd_rt_def)
  show ?thesis
  proof (cases r)
    case (Inl e)
    with ok' acts_for_trans [OF acts acts_for_close] show ?thesis by (simp add: setup_ok_def ws_admit_def tc ins)
  next
    case (Inr x)
    have m: "rt_chans (g_rt (gauge_sessions GaugeVec_inc t ?g)) = rt_chans (g_rt ?g)"
      by (simp add: gauge_sessions_def upd_metrics_def)
    have sent: "fst (send_await w tx msg (rt_chans (g_rt ?g))) = Sent" for w msg
      by (simp add: send_await_def ch mpsc_channel_def ch_full_def)
    let ?h = "upd_chans (\<lambda>_. snd (send_await (\<lambda>_. NoProgress) tx (MText (sys_authed_json ex t u sid tr)) (rt_chans (g_rt ?g))))
      (gauge_sessions GaugeVec_inc t ?g)"
    have acts': "acts_for tx t g ?h"
    proof (rule acts_for_chans_after)
      show "acts_for tx t g (gauge_sessions GaugeVec_inc t ?g)" using acts by simp
    qed (use send_await_log m in metis)
    have ok'': "gw_ok ex cfg ?h" using ok' by simp
    have "tx < g_next_chan ?h" using fresh acts' by (simp add: fresh_chan_def acts_for_def)
    moreover have "gw_ping_interval_ms (gc_gateway (as_cfg (g_app ?h))) \<noteq> 0" using gw_okD(1) [OF ok''] ping by simp
    ultimately show ?thesis
      using Inr ok'' acts' sent t
      by (simp add: setup_ok_def ws_admit_def tc ins Let_def case_prod_unfold m sess_ok_def) (simp add: u lim)
  qed
qed

lemma gw_ok_ids [simp]:
  "gw_ok ex cfg (snd (gen_sid g)) \<longleftrightarrow> gw_ok ex cfg g" "gw_ok ex cfg (snd (gen_trace n g)) \<longleftrightarrow> gw_ok ex cfg g"
  by (simp_all add: gw_ok_def gen_sid_def gen_trace_def)

lemma config_valid_ping: "config_valid cfg \<Longrightarrow> gw_ping_interval_ms (gc_gateway cfg) \<noteq> 0"
  by (auto simp: config_valid_def gateway_valid_def)

lemma deny_ok:
  assumes "gw_ok ex cfg g"
  shows "setup_ok ex cfg tx t g (SetupDone, close_chan tx (upd_chans (\<lambda>cs. snd (send_await w tx m cs)) g))"
proof -
  have "acts_for tx t g (upd_chans (\<lambda>cs. snd (send_await w tx m cs)) g)"
    by (rule acts_for_chans) (use send_await_log in blast)
  from acts_for_trans [OF this acts_for_close] assms show ?thesis by (simp add: setup_ok_def)
qed

lemma ws_setup_ok:
  assumes ok: "gw_ok ex cfg g" and it: "iter_ok (ex_iter ex)" and cf: "colon_free cfg" and cv: "config_valid cfg"
  shows "setup_ok ex cfg (g_next_chan g) (q_tenant q) g (ws_setup ex now nanos q g)"
proof (cases "tenant_policy (g_app g) (q_tenant q)")
  case None
  with ok show ?thesis by (simp add: setup_ok_def ws_setup_def)
next
  case (Some p)
  have t: "q_tenant q \<in> tenant_ids cfg" using Some gw_okD(3) [OF ok] by (auto simp: tenant_policy_def)
  then have c: "CHR '':'' \<notin> set (q_tenant q)" using cf by (simp add: colon_free_def)
  show ?thesis
  proof (cases "resolve_ticket (q_ticket q)")
    case (Inl e)
    with Some ok show ?thesis by (simp add: setup_ok_def ws_setup_def)
  next
    case (Inr u)
    obtain sid g1 where g1: "(case q_sid q of Some sid \<Rightarrow> (sid, g) | None \<Rightarrow> gen_sid g) = (sid, g1)" by fastforce
    let ?t = "q_tenant q"
    let ?a = "acts_for (g_next_chan g) ?t"
    have ok1: "gw_ok ex cfg g1"
      using g1 ok gw_ok_ids(1) [of ex cfg g] by (cases "q_sid q") (simp_all del: gw_ok_ids)
    have n1: "g_next_chan g1 = g_next_chan g" and a1: "?a g g1"
      using g1 acts_for_ids(1) [of "g_next_chan g" ?t g] by (cases "q_sid q"; auto simp: gen_sid_def)+
    obtain tr g2 where g2: "gen_trace nanos g1 = (tr, g2)" by fastforce
    have ok2: "gw_ok ex cfg g2" using g2 ok1 gw_ok_ids(2) [of ex cfg nanos g1] by (simp del: gw_ok_ids)
    have a2: "?a g1 g2" using g2 acts_for_ids(2) [of "g_next_chan g" ?t g1 nanos] by simp
    obtain tx g3 where g3: "new_channel g2 = (tx, g3)" by fastforce
    have tx: "tx = g_next_chan g" using g2 g3 n1 by (auto simp: gen_trace_def new_channel_def Let_def)
    have a3: "?a g g3" using acts_for_trans [OF acts_for_trans [OF a1 a2]] acts_for_new_channel [OF g3] tx by simp
    have fresh: "fresh_chan ex cfg tx g3" by (rule fresh_chan_new [OF ok2 g3])
    then have ok3: "gw_ok ex cfg g3" by (simp add: fresh_chan_def)
    define h where "h = inc_policy [(''tenant'', ?t), (''lane'', ''session''),
      (''decision'', ''reject''), (''reason'', ''max_user_sessions'')] g3"
    have fh: "fresh_chan ex cfg tx h" and okh: "gw_ok ex cfg h" and ah: "acts_for tx ?t g3 h"
      using fresh ok3 by (simp_all add: h_def)
    have kick: "acts_for tx ?t g3 (kick_oldest ex ?t (key_join ?t u) tr h)"
      using gw_okD(4,5) [OF okh] it c by (intro acts_for_trans [OF ah] acts_for_kick) simp_all
    have u: "u = dev_user" using Inr by (simp add: resolve_ticket_def split: if_splits)
    note admit = ws_admit_ok [OF _ t c config_valid_ping [OF cv] u, of ex tx _ now p sid tr]
    have "setup_ok ex cfg tx ?t g3 (ws_setup ex now nanos q g)"
      using admit [OF fresh] setup_ok_after [OF kick admit [OF fresh_chan_kick [OF fh it tenant_of_key_join [OF c]]]]
        setup_ok_after [OF ah deny_ok [OF okh]]
      by (simp add: ws_setup_def Some Inr g1 g2 g3 Let_def h_def [symmetric] split: OnExceed.splits)
    then show ?thesis using setup_ok_after [of "g_next_chan g", OF a3] tx by simp
  qed
qed

section \<open>Reachable states\<close>

text \<open>A live session: its channel exists and is registered for no tenant but its own.\<close>

definition live_ok :: "GatewayConfig \<Rightarrow> Gateway \<Rightarrow> nat \<Rightarrow> WsSession \<Rightarrow> bool" where
  "live_ok cfg g tx s \<longleftrightarrow>
     sess_ok cfg s \<and> ws_tx s = tx \<and> tx < g_next_chan g \<and> (\<forall>t. tx \<in> tenant_txs g t \<longrightarrow> t = ws_tenant s)"

definition sys_ok :: "Externals \<Rightarrow> GatewayConfig \<Rightarrow> Sys \<Rightarrow> bool" where
  "sys_ok ex cfg y \<longleftrightarrow>
     gw_ok ex cfg (sy_gw y) \<and> (\<forall>tx s. sy_live y tx = Some s \<longrightarrow> live_ok cfg (sy_gw y) tx s)"

lemma live_ok_view: "g_view g' = g_view g \<Longrightarrow> live_ok cfg g' tx s \<longleftrightarrow> live_ok cfg g tx s"
  by (simp add: live_ok_def g_view_def tenant_txs_def)

lemma sys_ok_view: "g_view g = g_view (sy_gw y) \<Longrightarrow> sys_ok ex cfg (y\<lparr>sy_gw := g\<rparr>) \<longleftrightarrow> sys_ok ex cfg y"
  using gw_ok_view [of g "sy_gw y"] live_ok_view [of g "sy_gw y"] by (simp add: sys_ok_def)

text \<open>Acting for the tenant of a live session, or with a new channel, keeps all sessions live.\<close>

lemma live_ok_acts:
  assumes "live_ok cfg g tx s" and "acts_for tx' t g g'" and "tx = tx' \<Longrightarrow> t = ws_tenant s"
  shows "live_ok cfg g' tx s"
proof -
  have "ws_tenant s = t'" if "tx \<in> tenant_txs g' t'" for t'
  proof -
    have "tx \<in> tenant_txs g t' \<or> tx = tx' \<and> t' = t" using assms(2) that by (rule acts_for_txs)
    with assms(1,3) show ?thesis by (auto simp: live_ok_def)
  qed
  moreover have "tx < g_next_chan g'" using assms(1,2) unfolding live_ok_def acts_for_def by linarith
  ultimately show ?thesis using assms(1) by (auto simp: live_ok_def)
qed

lemma live_ok_fresh:
  assumes "live_ok cfg g tx s" and "acts_for (g_next_chan g) t g g'"
  shows "live_ok cfg g' tx s"
proof (rule live_ok_acts [OF assms])
  show "t = ws_tenant s" if "tx = g_next_chan g" using assms(1) that by (simp add: live_ok_def)
qed

lemma sys_ok_liveD:
  assumes "sys_ok ex cfg y" and "sy_live y tx = Some s"
  shows "gw_ok ex cfg (sy_gw y)" "sess_ok cfg s" "ws_tx s = tx" "live_ok cfg (sy_gw y) tx s"
  using assms by (simp_all add: sys_ok_def live_ok_def)

lemma sys_ok_acts:
  assumes "sys_ok ex cfg y" and "sy_live y tx = Some s" and "acts_for tx (ws_tenant s) (sy_gw y) g" and "gw_ok ex cfg g"
    and "\<And>s'. v = Some s' \<Longrightarrow> live_ok cfg g tx s'"
  shows "sys_ok ex cfg \<lparr>sy_gw = g, sy_live = (sy_live y)(tx := v)\<rparr>"
proof -
  have "live_ok cfg g tx' s'" if "sy_live y tx' = Some s'" for tx' s'
    using assms(1,2) that by (intro live_ok_acts [OF sys_ok_liveD(4) [OF assms(1) that] assms(3)]) simp
  with assms(4,5) show ?thesis by (auto simp: sys_ok_def)
qed

lemma ws_upgrade_view: "g_view (snd (ws_upgrade ex now ip q g)) = g_view g"
proof -
  obtain r hs where "hd_check (ex_shard ex) now ip (as_handshake (g_app g)) = (r, hs)" by fastforce
  then show ?thesis
    by (cases r) (simp_all add: ws_upgrade_def Let_def g_view_def upd_metrics_def inc_rejections_def split: option.splits)
qed

lemma shutdown_core [simp]: "rt_core (best_effort_shutdown_all it reason rt) = rt_core rt"
proof -
  have "rt_core (fold (\<lambda>(k, conn). lossy_send (conn_tx conn) m) cs rt) = rt_core rt" for cs m
    by (induction cs arbitrary: rt) auto
  then show ?thesis by (simp add: best_effort_shutdown_all_def)
qed

lemma drain_view: "g_view (begin_drain ex g) = g_view g"
  by (simp add: g_view_def begin_drain_def upd_rt_def enter_draining_def)

lemma ending_acts:
  assumes ok: "gw_ok ex cfg g" and so: "sess_ok cfg s" and it: "iter_ok (ex_iter ex)" and cf: "colon_free cfg"
  shows "acts_for tx (ws_tenant s) g (session_end ex s g)"
proof -
  have "tenant_of (ws_user_key s) = ws_tenant s" "tenant_of (ws_session_key s) = ws_tenant s"
    using sess_keys [OF cf so] by simp_all
  then show ?thesis by (rule acts_for_end [OF gw_okD(4,5) [OF ok] it])
qed

lemma sys_step_ok:
  assumes "sys_step ex y y'" and ok: "sys_ok ex cfg y" and it: "iter_ok (ex_iter ex)" and cf: "colon_free cfg"
    and cv: "config_valid cfg"
  shows "sys_ok ex cfg y'"
  using assms(1)
proof cases
  case (sys_upgrade now ip q)
  with ok show ?thesis by (simp add: sys_ok_view ws_upgrade_view)
next
  case (sys_setup now nanos q s g)
  have gok: "gw_ok ex cfg (sy_gw y)" using ok by (simp add: sys_ok_def)
  from ws_setup_ok [OF this it cf cv, of q now nanos] sys_setup(2)
  have new: "gw_ok ex cfg g" "sess_ok cfg s" "ws_tenant s = q_tenant q" "ws_tx s = g_next_chan (sy_gw y)"
    "ws_tx s < g_next_chan g" and acts: "acts_for (g_next_chan (sy_gw y)) (q_tenant q) (sy_gw y) g"
    by (simp_all add: setup_ok_def)
  have "ws_tx s \<notin> tenant_txs (sy_gw y) t" for t
    using gw_okD(4) [OF gok] new(4) by (fastforce simp: tenant_txs_def reg_ok_def)
  then have "live_ok cfg g (ws_tx s) s"
    using new acts_for_txs [OF acts, of "ws_tx s"] by (auto simp: live_ok_def)
  moreover have "live_ok cfg g tx s'" if "sy_live y tx = Some s'" for tx s'
    using sys_ok_liveD(4) [OF ok that] acts by (rule live_ok_fresh)
  ultimately show ?thesis using sys_setup(1) new(1) by (simp add: sys_ok_def)
next
  case (sys_setup_fails now nanos q r g)
  then have "setup_ok ex cfg (g_next_chan (sy_gw y)) (q_tenant q) (sy_gw y) (r, g)"
    using ws_setup_ok [OF _ it cf cv] ok by (metis sys_ok_def)
  with sys_setup_fails ok show ?thesis by (auto simp: sys_ok_def setup_ok_def intro: live_ok_fresh)
next
  case (sys_continue tx s ev s' g)
  note live = sys_ok_liveD [OF ok sys_continue(2)]
  have arm: "mid_ok ex cfg s (sy_gw y) s' g" using ws_step_arm [OF it cf live(1,2), of ev] sys_continue(3) by simp
  then have "live_ok cfg g tx s'" "acts_for tx (ws_tenant s) (sy_gw y) g"
    using live live_ok_acts [OF live(4)] by (auto simp: mid_ok_def live_ok_def)
  with sys_ok_acts [OF ok sys_continue(2), where v = "Some s'"] arm sys_continue(1) show ?thesis
    by (simp add: mid_ok_def)
next
  case (sys_leave tx s ev fl s' g)
  note live = sys_ok_liveD [OF ok sys_leave(2)]
  have arm: "mid_ok ex cfg s (sy_gw y) s' g" using ws_step_arm [OF it cf live(1,2), of ev] sys_leave(3) by simp
  have "acts_for tx (ws_tenant s) (sy_gw y) (session_end ex s' g)"
    using arm live(3) ending_acts [OF _ _ it cf, of g s' tx] by (auto simp: mid_ok_def intro: acts_for_trans)
  then show ?thesis
    using sys_ok_acts [OF ok sys_leave(2), where v = None] arm gw_ok_end [OF _ it cf] sys_leave(1) by (simp add: mid_ok_def)
next
  case (sys_stuck tx s ev s' g)
  note live = sys_ok_liveD [OF ok sys_stuck(2)]
  have "mid_ok ex cfg s (sy_gw y) s' g" using ws_step_arm [OF it cf live(1,2), of ev] sys_stuck(3) by simp
  then show ?thesis
    using sys_ok_acts [OF ok sys_stuck(2), where v = None] live(3) sys_stuck(1) by (simp add: mid_ok_def)
next
  case sys_drain
  with ok show ?thesis by (simp add: sys_ok_view drain_view)
qed

lemma sys_reach_ok:
  assumes "sys_reach ex cfg y" and "config_valid cfg" and "iter_ok (ex_iter ex)" and "colon_free cfg"
  shows "sys_ok ex cfg y"
  using assms(1)
proof (induction rule: sys_reach.induct)
  case (sys_reach_new now app)
  then obtain m where m: "compile_policies now (gc_tenants cfg) Map.empty = Inr m"
    and app: "app = \<lparr>as_cfg = cfg, as_tenant_policy = m, as_realtime = Runtime_new,
              as_dispatcher = builtin_dispatcher ex, as_metrics = GatewayMetrics_default,
              as_handshake = HandshakeDefender_new now (gw_handshake_limit (gc_gateway cfg))\<rparr>"
    by (auto simp: AppState_new_Inr)
  have "distinct (map tc_id (gc_tenants cfg))" using assms(2) by (simp add: config_valid_def)
  from compile_policies_Inr [OF this m] have "dom m = tenant_ids cfg"
    by (auto simp: tenant_ids_def dom_def image_iff)
  then show ?case
    by (simp add: sys_ok_def gw_ok_def Gateway_new_def app Runtime_new_def RealtimeCore_new_def reg_ok_new pres_ok_new)
next
  case (sys_reach_step y y')
  then show ?case using sys_step_ok assms(2-4) by blast
qed

end
