(* ===== verification/Gateway_Runs.thy ===== *)
theory Gateway_Runs
  imports Gateway_System
begin

text \<open>
  Consequences of the gateway invariant along whole runs: what insertion and removal keep of the session
  table holds in every reachable state, in particular the tenant session cap; and draining is never left.
\<close>

section \<open>Laws of the session table lift to runs\<close>

lemma ids_core [simp]: "g_core (snd (gen_sid g)) = g_core g" "g_core (snd (gen_trace n g)) = g_core g"
  "as_cfg (g_app (snd (gen_sid g))) = as_cfg (g_app g)" "as_cfg (g_app (snd (gen_trace n g))) = as_cfg (g_app g)"
  by (simp_all add: gen_sid_def gen_trace_def)

lemma new_channel_core: "g_core (snd (new_channel g)) = g_core g" "as_cfg (g_app (snd (new_channel g))) = as_cfg (g_app g)"
  by (simp_all add: new_channel_def Let_def upd_chans_def upd_rt_def)

lemma kick_cfg: "as_cfg (g_app (kick_oldest ex t u tr g)) = as_cfg (g_app g)"
  by (simp add: kick_oldest_def case_prod_unfold Let_def upd_core_def upd_chans_def upd_rt_def gauge_sessions_def
      upd_metrics_def split: option.splits)

text \<open>
  A property of the session table that holds initially and is kept by an insertion under the configured
  cap and by a removal.  Set-up, eviction and clean-up use nothing else.
\<close>

locale registry_law =
  fixes cfg :: GatewayConfig and Q :: "SessionRegistry \<Rightarrow> bool"
  assumes law_new: "Q SessionRegistry_new"
    and law_insert: "find (\<lambda>tc. tc_id tc = i) (gc_tenants cfg) = Some tc \<Longrightarrow> Q r \<Longrightarrow>
      Q (snd (try_insert i u k c (tl_max_sessions_total (tc_limits tc)) r))"
    and law_remove: "Q r \<Longrightarrow> Q (snd (remove_session u k r))"
begin

lemma law_evict: "Q r \<Longrightarrow> Q (snd (evict_oldest it u r))"
  by (simp add: evict_oldest_def case_prod_unfold Let_def law_remove split: option.splits)

lemma law_end: "Q (rc_sessions (g_core g)) \<Longrightarrow> Q (rc_sessions (g_core (session_end ex s g)))"
  by (simp add: session_end_def session_cleanup_def Let_def close_chan_def) (simp add: upd_core_def law_remove)

lemma law_kick: "Q (rc_sessions (g_core g)) \<Longrightarrow> Q (rc_sessions (g_core (kick_oldest ex t u tr g)))"
  using law_evict [of "rc_sessions (g_core g)" "ex_iter ex" u]
  by (simp add: kick_oldest_def case_prod_unfold Let_def split: option.splits) (simp add: upd_core_def)

lemma law_admit:
  assumes "as_cfg (g_app g) = cfg" and "Q (rc_sessions (g_core g))"
  shows "Q (rc_sessions (g_core (snd (ws_admit ex now p t u sid tr tx g))))"
proof (cases "find (\<lambda>tc. tc_id tc = t) (gc_tenants cfg)")
  case None
  with assms show ?thesis by (simp add: ws_admit_def close_chan_def)
next
  case (Some tc)
  obtain r reg where ins: "try_insert t (key_join t u) (key_join t (key_join u sid)) \<lparr>conn_tx = tx\<rparr>
    (tl_max_sessions_total (tc_limits tc)) (rc_sessions (g_core g)) = (r, reg)" by fastforce
  have "Q reg" using law_insert [OF Some assms(2)] ins by (metis snd_conv)
  then have q: "Q (rc_sessions (g_core (upd_core (\<lambda>c. c\<lparr>rc_sessions := reg\<rparr>) g)))" by (simp add: upd_core_def)
  show ?thesis
    using q assms(1) Some
    by (cases r) (auto simp: ws_admit_def ins Let_def case_prod_unfold close_chan_def law_end split: send_outcome.splits)
qed

lemma law_setup:
  assumes "as_cfg (g_app g) = cfg" and "Q (rc_sessions (g_core g))"
  shows "Q (rc_sessions (g_core (snd (ws_setup ex now nanos q g))))"
proof (cases "tenant_policy (g_app g) (q_tenant q)")
  case None
  with assms show ?thesis by (simp add: ws_setup_def)
next
  case (Some p)
  show ?thesis
  proof (cases "resolve_ticket (q_ticket q)")
    case (Inl e)
    with Some assms show ?thesis by (simp add: ws_setup_def)
  next
    case (Inr u)
    define g1 where "g1 = (case q_sid q of Some sid \<Rightarrow> (sid, g) | None \<Rightarrow> gen_sid g)"
    define g3 where "g3 = snd (new_channel (snd (gen_trace nanos (snd g1))))"
    have g3: "g_core g3 = g_core g" "as_cfg (g_app g3) = as_cfg (g_app g)"
      by (simp_all add: g3_def g1_def new_channel_core split: option.splits)
    let ?h = "inc_policy [(''tenant'', q_tenant q), (''lane'', ''session''), (''decision'', ''reject''),
      (''reason'', ''max_user_sessions'')] g3"
    have h: "as_cfg (g_app ?h) = cfg" using assms(1) g3 by (simp add: inc_policy_def upd_metrics_def)
    have k: "as_cfg (g_app (kick_oldest ex t u tr ?h)) = cfg" for t u tr using h by (simp add: kick_cfg)
    show ?thesis
      using Some Inr assms g3 h k
      by (auto simp: ws_setup_def Let_def case_prod_unfold g1_def [symmetric] g3_def [symmetric] close_chan_def
          intro!: law_admit law_kick split: OnExceed.splits)
  qed
qed

lemma law_step:
  assumes "sys_step ex y y'" and ok: "sys_ok ex cfg y" and it: "iter_ok (ex_iter ex)" and cf: "colon_free cfg"
    and q: "Q (rc_sessions (g_core (sy_gw y)))"
  shows "Q (rc_sessions (g_core (sy_gw y')))"
proof -
  have arm: "rc_sessions (g_core g) = rc_sessions (g_core (sy_gw y))"
    if "sy_live y tx = Some s" and "ws_step ex ev s (sy_gw y) = (fl, s', g)" for tx s ev fl s' g
    using ws_step_arm [OF it cf sys_ok_liveD(1,2) [OF ok that(1)], of ev] that(2) by (simp add: mid_ok_def)
  have "as_cfg (g_app (sy_gw y)) = cfg" using ok by (simp add: sys_ok_def gw_ok_def)
  note su = law_setup [OF this q]
  show ?thesis
    using assms(1)
  proof cases
    case (sys_upgrade now ip q')
    with ws_upgrade_view [of ex now ip q' "sy_gw y"] q show ?thesis by (simp add: g_view_def)
  next
    case (sys_setup now nanos q' s g)
    with su [of ex now nanos q'] show ?thesis by simp
  next
    case (sys_setup_fails now nanos q' r g)
    with su [of ex now nanos q'] show ?thesis by simp
  next
    case (sys_continue tx s ev s' g)
    with arm q show ?thesis by fastforce
  next
    case (sys_leave tx s ev fl s' g)
    with arm [OF sys_leave(2,3)] q show ?thesis by (simp add: law_end)
  next
    case (sys_stuck tx s ev s' g)
    with arm q show ?thesis by fastforce
  next
    case sys_drain
    with drain_view [of ex "sy_gw y"] q show ?thesis by (simp add: g_view_def)
  qed
qed

lemma law_reach:
  assumes "sys_reach ex cfg y" and "config_valid cfg" and "iter_ok (ex_iter ex)" and "colon_free cfg"
  shows "Q (rc_sessions (g_core (sy_gw y)))"
  using assms(1)
proof (induction rule: sys_reach.induct)
  case (sys_reach_new now app)
  then show ?case by (auto simp: AppState_new_Inr Gateway_new_def Runtime_new_def RealtimeCore_new_def law_new)
next
  case (sys_reach_step y y')
  from law_step [OF this(2) sys_reach_ok [OF this(1) assms(2-4)] assms(3,4) this(3)] show ?case .
qed

end

section \<open>The tenant session cap\<close>

text \<open>
  The counter of a tenant is an upper bound of its sessions, also when session ids are reused and the
  counter is no longer exact, and the counter never exceeds the cap.
\<close>

definition capped :: "u64 \<Rightarrow> string \<Rightarrow> SessionRegistry \<Rightarrow> bool" where
  "capped m t r \<longleftrightarrow>
     card (tenant_sessions r t) \<le> unat (count_tenant_sessions r t) \<and> count_tenant_sessions r t \<le> m"

lemma capped_remove:
  assumes "finite (dom (sr_sessions r))" and "capped m t r"
  shows "capped m t (snd (remove_session u k r))"
proof (cases "k \<in> tenant_sessions r t")
  case True
  let ?r = "snd (remove_session u k r)"
  have fin: "finite (tenant_sessions r t)" using assms(1) by (rule finite_tenant_sessions)
  have ts: "tenant_sessions ?r t = tenant_sessions r t - {k}" by (auto simp: tenant_sessions_def remove_session_eq)
  have "card (tenant_sessions r t) > 0" using True fin by (auto simp: card_gt_0_iff)
  then have pos: "0 < unat (count_tenant_sessions r t)" using assms(2) by (simp add: capped_def)
  then have "count_tenant_sessions ?r t = count_tenant_sessions r t - 1"
    using True by (auto simp: tenant_sessions_def remove_session_eq count_tenant_sessions_def split: option.splits)
  moreover have "unat (count_tenant_sessions r t - 1) = unat (count_tenant_sessions r t) - 1"
    using pos by (intro unat_minus_one) auto
  ultimately show ?thesis
    using assms(2) True fin pos by (auto simp: capped_def ts card_Diff_singleton word_le_nat_alt)
next
  case False
  then have "tenant_sessions (snd (remove_session u k r)) t = tenant_sessions r t"
    "count_tenant_sessions (snd (remove_session u k r)) t = count_tenant_sessions r t"
    by (auto simp: tenant_sessions_def remove_session_eq count_tenant_sessions_def split: option.splits)
  with assms(2) show ?thesis by (simp add: capped_def)
qed

lemma capped_insert:
  assumes "finite (dom (sr_sessions r))" and "capped m t r" and "t' = t \<Longrightarrow> m' = m" and "m > 0"
  shows "capped m t (snd (try_insert t' u k c m' r))"
proof (cases "m' > 0 \<and> count_tenant_sessions r t' \<ge> m'")
  case True
  with assms(2) show ?thesis by (auto simp: try_insert_eq capped_def tenant_sessions_def count_tenant_sessions_def)
next
  case False
  let ?r = "snd (try_insert t' u k c m' r)"
  have fin: "finite (tenant_sessions r t)" using assms(1) by (rule finite_tenant_sessions)
  show ?thesis
  proof (cases "t' = t")
    case True
    have lt: "count_tenant_sessions r t < m" using False True assms(3,4) by auto
    have ts: "tenant_sessions ?r t = insert k (tenant_sessions r t)"
      and ct: "count_tenant_sessions ?r t = count_tenant_sessions r t + 1"
      using False True by (auto simp: try_insert_eq tenant_sessions_def count_tenant_sessions_def split: if_splits)
    have "unat (count_tenant_sessions r t + 1) = unat (count_tenant_sessions r t) + 1"
      using lt unat_plus_one [of "count_tenant_sessions r t"] by (metis Suc_eq_plus1 not_less word_order.extremum)
    moreover have "card (insert k (tenant_sessions r t)) \<le> card (tenant_sessions r t) + 1"
      using fin by (simp add: card_insert_if)
    ultimately show ?thesis using assms(2) lt by (simp add: capped_def ts ct word_le_nat_alt word_less_nat_alt)
  next
    case other: False
    have "tenant_sessions ?r t \<subseteq> tenant_sessions r t" "count_tenant_sessions ?r t = count_tenant_sessions r t"
      using False other by (auto simp: try_insert_eq tenant_sessions_def count_tenant_sessions_def split: if_splits)
    then have "card (tenant_sessions ?r t) \<le> card (tenant_sessions r t)" by (intro card_mono fin)
    with assms(2) \<open>count_tenant_sessions ?r t = count_tenant_sessions r t\<close> show ?thesis by (simp add: capped_def)
  qed
qed

definition caps_hold :: "GatewayConfig \<Rightarrow> SessionRegistry \<Rightarrow> bool" where
  "caps_hold cfg r \<longleftrightarrow> finite (dom (sr_sessions r))
   \<and> (\<forall>i tc. find (\<lambda>tc. tc_id tc = i) (gc_tenants cfg) = Some tc \<longrightarrow> tl_max_sessions_total (tc_limits tc) > 0 \<longrightarrow>
        capped (tl_max_sessions_total (tc_limits tc)) i r)"

interpretation cap: registry_law cfg "caps_hold cfg" for cfg
proof
  show "caps_hold cfg SessionRegistry_new"
    by (simp add: caps_hold_def capped_def SessionRegistry_new_def tenant_sessions_def count_tenant_sessions_def)
  show "caps_hold cfg (snd (remove_session u k r))" if "caps_hold cfg r" for u k r
    using that by (auto simp: caps_hold_def capped_remove) (simp add: remove_session_eq)
  show "caps_hold cfg (snd (try_insert i u k c (tl_max_sessions_total (tc_limits tc)) r))"
    if "find (\<lambda>tc. tc_id tc = i) (gc_tenants cfg) = Some tc" and "caps_hold cfg r" for i tc r u k c
  proof -
    have "capped (tl_max_sessions_total (tc_limits tc')) i' (snd (try_insert i u k c (tl_max_sessions_total (tc_limits tc)) r))"
      if "find (\<lambda>tc. tc_id tc = i') (gc_tenants cfg) = Some tc'" and "tl_max_sessions_total (tc_limits tc') > 0" for i' tc'
      using that \<open>find (\<lambda>tc. tc_id tc = i) (gc_tenants cfg) = Some tc\<close> \<open>caps_hold cfg r\<close>
      by (intro capped_insert) (auto simp: caps_hold_def)
    with \<open>caps_hold cfg r\<close> show ?thesis by (simp add: caps_hold_def) (simp add: try_insert_eq)
  qed
qed

section \<open>Draining is final\<close>

lemma sys_step_drain:
  assumes "sys_step ex y y'" and ok: "sys_ok ex cfg y" and it: "iter_ok (ex_iter ex)" and cf: "colon_free cfg"
    and cv: "config_valid cfg" and d: "g_drain (sy_gw y)"
  shows "g_drain (sy_gw y')"
  using assms(1)
proof cases
  case (sys_upgrade now ip q)
  then show ?thesis
    using d by (auto simp: ws_upgrade_def Let_def case_prod_unfold split: CheckOutcome.splits option.splits)
next
  case (sys_drain)
  then show ?thesis by (simp add: begin_drain_def enter_draining_def set_draining_def)
next
  case (sys_setup now nanos q s g)
  with ws_setup_ok [OF _ it cf cv, of "sy_gw y" q now nanos] ok d show ?thesis
    by (simp add: sys_ok_def setup_ok_def acts_for_def)
next
  case (sys_setup_fails now nanos q r g)
  with ws_setup_ok [OF _ it cf cv, of "sy_gw y" q now nanos] ok d show ?thesis
    by (simp add: sys_ok_def setup_ok_def acts_for_def)
next
  case (sys_continue tx s ev s' g)
  with ws_step_arm [OF it cf sys_ok_liveD(1,2) [OF ok sys_continue(2)], of ev] d show ?thesis
    by (simp add: mid_ok_def acts_for_def)
next
  case (sys_stuck tx s ev s' g)
  with ws_step_arm [OF it cf sys_ok_liveD(1,2) [OF ok sys_stuck(2)], of ev] d show ?thesis
    by (simp add: mid_ok_def acts_for_def)
next
  case (sys_leave tx s ev fl s' g)
  have arm: "mid_ok ex cfg s (sy_gw y) s' g"
    using ws_step_arm [OF it cf sys_ok_liveD(1,2) [OF ok sys_leave(2)], of ev] sys_leave(3) by simp
  with sys_leave d show ?thesis
    using ending_acts [OF _ _ it cf, of g s' tx] by (simp add: mid_ok_def acts_for_def)
qed

lemma sys_steps_drain:
  assumes "(sys_step ex)\<^sup>*\<^sup>* y y'" and "sys_reach ex cfg y" and it: "iter_ok (ex_iter ex)" and cf: "colon_free cfg"
    and cv: "config_valid cfg" and d: "g_drain (sy_gw y)"
  shows "sys_reach ex cfg y' \<and> g_drain (sy_gw y')"
  using assms(1)
proof (induction rule: rtranclp_induct)
  case base
  with assms show ?case by simp
next
  case (step y' y'')
  then show ?case using sys_step_drain [OF _ _ it cf cv] sys_reach_ok [OF _ cv it cf] sys_reach_step by blast
qed

lemma upgrade_not_draining: "fst (ws_upgrade ex now ip q g) = Upgraded \<Longrightarrow> \<not> g_drain g"
proof -
  obtain r hs where hc: "hd_check (ex_shard ex) now ip (as_handshake (g_app g)) = (r, hs)" by fastforce
  then show "fst (ws_upgrade ex now ip q g) = Upgraded \<Longrightarrow> \<not> g_drain g"
    by (cases r) (auto simp: ws_upgrade_def Let_def app_is_draining_def is_draining_def)
qed


section \<open>The enabled limiter\<close>

lemma ws_upgrade_handshake:
  "as_handshake (g_app (snd (ws_upgrade ex now ip q g))) = snd (hd_check (ex_shard ex) now ip (as_handshake (g_app g)))"
  by (simp add: ws_upgrade_def Let_def case_prod_unfold inc_rejections_def upd_metrics_def
      split: CheckOutcome.splits option.splits)

lemma ws_upgrade_check:
  assumes "hs_enabled (hd_cfg (as_handshake (g_app g)))"
  shows "fst (ws_upgrade ex now ip q g) \<noteq> Upgraded"
    and "fst (ws_upgrade ex now ip q g) = Hanging \<longleftrightarrow>
      fst (hd_check (ex_shard ex) now ip (as_handshake (g_app g))) = CheckHang"
    and "fst (ws_upgrade ex now ip q g) = Refused p \<Longrightarrow> rs_status p = 429"
proof -
  obtain r hs where hc: "hd_check (ex_shard ex) now ip (as_handshake (g_app g)) = (r, hs)" by fastforce
  have "r \<noteq> CheckOk" by (rule hd_check_enabled(1) [OF assms hc])
  then show "fst (ws_upgrade ex now ip q g) \<noteq> Upgraded"
    and "fst (ws_upgrade ex now ip q g) = Hanging \<longleftrightarrow>
      fst (hd_check (ex_shard ex) now ip (as_handshake (g_app g))) = CheckHang"
    and "fst (ws_upgrade ex now ip q g) = Refused p \<Longrightarrow> rs_status p = 429"
    using hc by (cases r; auto simp: ws_upgrade_def)+
qed

text \<open>A sequence of requests: what each one leaves the next.\<close>

definition serve_requests :: "Externals \<Rightarrow> (instant \<times> IpAddr \<times> WsQuery) list \<Rightarrow> Gateway \<Rightarrow> Gateway" where
  "serve_requests ex = fold (\<lambda>(now, ip, q) g. snd (ws_upgrade ex now ip q g))"

lemma serve_requests_held:
  assumes "hs_enabled (hd_cfg (as_handshake (g_app g)))"
  shows "hs_enabled (hd_cfg (as_handshake (g_app (serve_requests ex rs g))))
    \<and> hd_held (as_handshake (g_app g)) \<subseteq> hd_held (as_handshake (g_app (serve_requests ex rs g)))"
  using assms
proof (induction rs arbitrary: g)
  case (Cons x rs)
  obtain now ip q where x: "x = (now, ip, q)" by (cases x) auto
  let ?g = "snd (ws_upgrade ex now ip q g)"
  have "hs_enabled (hd_cfg (as_handshake (g_app ?g)))" "hd_held (as_handshake (g_app g)) \<subseteq> hd_held (as_handshake (g_app ?g))"
    using hd_check_enabled(4,5) [OF Cons.prems] Cons.prems by (metis ws_upgrade_handshake prod.collapse)+
  with Cons.IH [of ?g] x show ?case by (auto simp: serve_requests_def)
qed (simp add: serve_requests_def)

end
