(* ===== verification/Gateway_Example.thy ===== *)
theory Gateway_Example
  imports Gateway_Runs
begin

text \<open>
  An example run: a gateway with two tenants and one connected session of each, on which the properties
  of the whole gateway are instantiated.
\<close>

definition small_tenant :: "string \<Rightarrow> TenantConfig" where
  "small_tenant i =
     \<lparr>tc_id = i, tc_limits = TenantLimits_default\<lparr>tl_max_sessions_total := 1\<rparr>, tc_policy = TenantPolicy_default\<rparr>"

definition duo_cfg :: GatewayConfig where
  "duo_cfg = \<lparr>gc_version = 1, gc_gateway = GatewaySection_default,
     gc_tenants = map small_tenant [''acme'', ''globex'']\<rparr>"

lemma duo_valid: "config_valid duo_cfg"
  using default_tenants_valid [of "[''acme'', ''globex'']"]
  by (simp add: duo_cfg_def small_tenant_def config_valid_def tenant_valid_def white3_def TenantLimits_default_def)

lemma duo_colon_free: "colon_free duo_cfg"
  by (simp add: colon_free_def tenant_ids_def duo_cfg_def small_tenant_def)

lemma duo_ping: "gw_ping_interval_ms (gc_gateway duo_cfg) = 20000"
  by (simp add: duo_cfg_def GatewaySection_default_def default_ping_interval_ms_def)

lemma demo_ex_iter: "iter_ok (ex_iter demo_ex)"
  by (simp add: demo_ex_def iter_ok_sorted)

lemma small_tenant_compiles:
  "\<exists>p. TenantPolicyRuntime_new i n TenantPolicy_default now = Inr p
     \<and> pr_sessions p = SessionPolicy_default"
  by (simp add: TenantPolicyRuntime_new_def TenantPolicy_default_def default_ext_allowlist_def compile_ext_rule_def)

lemma duo_app:
  "\<exists>app p p'. AppState_new demo_ex 0 duo_cfg = Inr app \<and> as_cfg app = duo_cfg \<and> as_realtime app = Runtime_new
     \<and> as_tenant_policy app = [''acme'' \<mapsto> p, ''globex'' \<mapsto> p']
     \<and> pr_sessions p = SessionPolicy_default \<and> pr_sessions p' = SessionPolicy_default"
proof -
  obtain p p' where
    "TenantPolicyRuntime_new ''acme'' (tl_max_frame_bytes TenantLimits_default) TenantPolicy_default 0 = Inr p"
    "TenantPolicyRuntime_new ''globex'' (tl_max_frame_bytes TenantLimits_default) TenantPolicy_default 0 = Inr p'"
    "pr_sessions p = SessionPolicy_default" "pr_sessions p' = SessionPolicy_default"
    using small_tenant_compiles by meson
  then show ?thesis by (simp add: AppState_new_Inr duo_cfg_def small_tenant_def) blast
qed

text \<open>The first session of a user, under the default policy and no cap, is always admitted.\<close>

definition admitted :: "string \<Rightarrow> Gateway \<Rightarrow> WsSession \<Rightarrow> Gateway \<Rightarrow> bool" where
  "admitted t g s g' \<longleftrightarrow>
     ws_tenant s = t \<and> ws_tx s = g_next_chan g \<and> ws_wire s = []
   \<and> ws_session_key s = key_join t (key_join dev_user ''1'') \<and> ws_user_key s = key_join t dev_user
   \<and> as_cfg (g_app g') = as_cfg (g_app g) \<and> as_tenant_policy (g_app g') = as_tenant_policy (g_app g)
   \<and> g_next_chan g' = Suc (g_next_chan g)
   \<and> rt_chans (g_rt g') = (rt_chans (g_rt g))(g_next_chan g \<mapsto> ch_push (MText ''json'') (mpsc_channel 1024))
   \<and> sr_user_index (rc_sessions (g_core g')) = (sr_user_index (rc_sessions (g_core g)))
        (key_join t dev_user \<mapsto> {key_join t (key_join dev_user ''1'')})
   \<and> sr_tenant_counts (rc_sessions (g_core g')) = (sr_tenant_counts (rc_sessions (g_core g)))(t \<mapsto> 1)
   \<and> sr_sessions (rc_sessions (g_core g')) = (sr_sessions (rc_sessions (g_core g)))
        (key_join t (key_join dev_user ''1'') \<mapsto>
           \<lparr>se_conn = \<lparr>conn_tx = g_next_chan g\<rparr>, se_created_seq = sr_seq (rc_sessions (g_core g)), se_tenant_id = t\<rparr>)"

definition dev_query :: "string \<Rightarrow> WsQuery" where
  "dev_query t = \<lparr>q_tenant = t, q_ticket = ''dev'', q_sid = Some ''1''\<rparr>"

lemma first_session:
  assumes "as_tenant_policy (g_app g) t = Some p" and "pr_sessions p = SessionPolicy_default"
    and "sr_user_index (rc_sessions (g_core g)) (key_join t dev_user) = None"
    and "count_tenant_sessions (rc_sessions (g_core g)) t = 0"
    and "find (\<lambda>tc. tc_id tc = t) (gc_tenants (as_cfg (g_app g))) = Some (small_tenant t)"
    and "gw_ping_interval_ms (gc_gateway (as_cfg (g_app g))) \<noteq> 0"
  shows "\<exists>s g'. ws_setup demo_ex 0 0 (dev_query t) g = (SetupRunning s, g') \<and> admitted t g s g'"
  using assms unfolding admitted_def
  by (simp add: dev_query_def ws_setup_def ws_admit_def tenant_policy_def resolve_ticket_def gen_trace_def new_channel_def
      Let_def upd_chans_def upd_rt_def upd_core_def SessionPolicy_default_def default_max_sessions_per_user_def
      count_user_sessions_def try_insert_eq small_tenant_def TenantLimits_default_def dm_add_def
      gauge_sessions_def upd_metrics_def send_await_def mpsc_channel_def ch_full_def sys_authed_json_def demo_ex_def)

lemma first_seq_below_max: "(1 :: u64) < - 1"
  by code_simp

lemma duo_run:
  "\<exists>y s s'. sys_reach demo_ex duo_cfg y \<and> sy_live y = [0 \<mapsto> s, 1 \<mapsto> s'] \<and> ws_tenant s = ''acme'' \<and> ws_tenant s' = ''globex''
     \<and> ws_wire s = [] \<and> ws_tx s = 0
     \<and> rt_chans (g_rt (sy_gw y)) = [0 \<mapsto> ch_push (MText ''json'') (mpsc_channel 1024),
                                     1 \<mapsto> ch_push (MText ''json'') (mpsc_channel 1024)]
     \<and> 0 \<in> tenant_txs (sy_gw y) ''acme'' \<and> 1 \<in> tenant_txs (sy_gw y) ''globex''
     \<and> get_session (rc_sessions (g_core (sy_gw y))) (ws_session_key s) = Some \<lparr>conn_tx = 0\<rparr>
     \<and> fst (evict_oldest (ex_iter demo_ex) (ws_user_key s) (rc_sessions (g_core (sy_gw y)))) = Some (ws_session_key s, \<lparr>conn_tx = 0\<rparr>)"
proof -
  obtain app p p' where app: "AppState_new demo_ex 0 duo_cfg = Inr app" "as_cfg app = duo_cfg" "as_realtime app = Runtime_new"
    "as_tenant_policy app = [''acme'' \<mapsto> p, ''globex'' \<mapsto> p']"
    "pr_sessions p = SessionPolicy_default" "pr_sessions p' = SessionPolicy_default"
    using duo_app by blast
  let ?g0 = "Gateway_new app"
  have g0: "as_cfg (g_app ?g0) = duo_cfg" "as_tenant_policy (g_app ?g0) = [''acme'' \<mapsto> p, ''globex'' \<mapsto> p']"
    "sr_user_index (rc_sessions (g_core ?g0)) = Map.empty" "sr_sessions (rc_sessions (g_core ?g0)) = Map.empty" "sr_tenant_counts (rc_sessions (g_core ?g0)) = Map.empty"
    "rt_chans (g_rt ?g0) = Map.empty" "g_next_chan ?g0 = 0" "sr_seq (rc_sessions (g_core ?g0)) = 1"
    by (simp_all add: Gateway_new_def app Runtime_new_def RealtimeCore_new_def SessionRegistry_new_def)
  have fs: "find (\<lambda>tc. tc_id tc = ''acme'') (gc_tenants duo_cfg) = Some (small_tenant ''acme'')"
    "find (\<lambda>tc. tc_id tc = ''globex'') (gc_tenants duo_cfg) = Some (small_tenant ''globex'')"
    by (simp_all add: duo_cfg_def small_tenant_def)
  obtain s g1 where s: "ws_setup demo_ex 0 0 (dev_query ''acme'') ?g0 = (SetupRunning s, g1)"
    and a: "admitted ''acme'' ?g0 s g1"
    using first_session [of ?g0 "''acme''" p] g0 fs app(5) duo_ping by (auto simp: count_tenant_sessions_def)
  have ne: "key_join ''globex'' x \<noteq> key_join ''acme'' z" for x z by (simp add: key_join_def)
  obtain s' g2 where s': "ws_setup demo_ex 0 0 (dev_query ''globex'') g1 = (SetupRunning s', g2)"
    and b: "admitted ''globex'' g1 s' g2"
    using first_session [of g1 "''globex''" p'] a g0 fs app(6) duo_ping ne by (auto simp: admitted_def count_tenant_sessions_def)
  note adm = a [unfolded admitted_def g0] b [unfolded admitted_def]
  let ?y0 = "\<lparr>sy_gw = ?g0, sy_live = Map.empty\<rparr>" and ?y1 = "\<lparr>sy_gw = g1, sy_live = [0 \<mapsto> s]\<rparr>"
    and ?y2 = "\<lparr>sy_gw = g2, sy_live = [0 \<mapsto> s, 1 \<mapsto> s']\<rparr>"
  have "sys_step demo_ex ?y0 ?y1" using sys_step.sys_setup [of demo_ex 0 0 "dev_query ''acme''" ?y0] s adm by simp
  moreover have "sys_step demo_ex ?y1 ?y2"
    using sys_step.sys_setup [of demo_ex 0 0 "dev_query ''globex''" ?y1] s' adm by simp
  ultimately have reach: "sys_reach demo_ex duo_cfg ?y2" using sys_reach_new [OF app(1)] sys_reach_step by blast
  have "0 \<in> tenant_txs g2 ''acme''" "1 \<in> tenant_txs g2 ''globex''"
    "get_session (rc_sessions (g_core g2)) (ws_session_key s) = Some \<lparr>conn_tx = 0\<rparr>"
    using adm ne [of "key_join dev_user ''1''" "key_join dev_user ''1''"] by (auto simp: tenant_txs_def get_session_def)
  moreover have "fst (evict_oldest (ex_iter demo_ex) (ws_user_key s) (rc_sessions (g_core g2))) = Some (ws_session_key s, \<lparr>conn_tx = 0\<rparr>)"
    using adm ne [of "key_join dev_user ''1''" "key_join dev_user ''1''"] ne [of dev_user dev_user] g0(8)
    by (auto simp: evict_oldest_def demo_ex_def remove_session_eq first_seq_below_max)
  ultimately show ?thesis using reach adm by (intro exI [of _ ?y2] exI [of _ s] exI [of _ s']) simp
qed

text \<open>A queue that is not read fills up with the pings of its own loop.\<close>

lemma pings_fill_queue:
  assumes "n \<le> 1023"
  shows "\<exists>y s. sys_reach demo_ex duo_cfg y \<and> sy_live y 0 = Some s \<and> ws_tx s = 0
    \<and> rt_chans (g_rt (sy_gw y)) 0 =
        Some \<lparr>ch_cap = 1024, ch_queue = MText ''json'' # replicate n (MPing []), ch_taken = [], ch_open = True\<rparr>"
  using assms
proof (induction n)
  case 0
  obtain y s s' where "sys_reach demo_ex duo_cfg y" "sy_live y = [0 \<mapsto> s, 1 \<mapsto> s']" "ws_tx s = 0"
    "rt_chans (g_rt (sy_gw y)) = [0 \<mapsto> ch_push (MText ''json'') (mpsc_channel 1024),
                                  1 \<mapsto> ch_push (MText ''json'') (mpsc_channel 1024)]" using duo_run by blast
  then show ?case by (intro exI [of _ y] exI [of _ s]) (simp add: ch_push_def mpsc_channel_def)
next
  case (Suc n)
  then obtain y s where y: "sys_reach demo_ex duo_cfg y" "sy_live y 0 = Some s" "ws_tx s = 0"
    and c: "rt_chans (g_rt (sy_gw y)) 0 =
      Some \<lparr>ch_cap = 1024, ch_queue = MText ''json'' # replicate n (MPing []), ch_taken = [], ch_open = True\<rparr>"
    by auto
  let ?c = "\<lparr>ch_cap = 1024, ch_queue = MText ''json'' # replicate (Suc n) (MPing []), ch_taken = [], ch_open = True\<rparr>"
  let ?g = "upd_chans (\<lambda>_. (rt_chans (g_rt (sy_gw y)))(0 \<mapsto> ?c)) (sy_gw y)"
  have "ws_step demo_ex EvPing s (sy_gw y) = (Continue, s, ?g)"
    using y(3) c Suc.prems by (simp add: out_send_def send_await_def ch_full_def ch_push_def replicate_append_same)
  from sys_reach_step [OF y(1) sys_step.sys_continue [OF y(2) this]] y(2,3) show ?case
    by (intro exI [of _ "\<lparr>sy_gw = ?g, sy_live = (sy_live y)(0 \<mapsto> s)\<rparr>"] exI [of _ s]) (simp add: upd_chans_def)
qed

text \<open>What the gauge of active sessions shows for a tenant.\<close>

definition active_gauge :: "string \<Rightarrow> Gateway \<Rightarrow> u64" where
  "active_gauge t g =
     (case gv_map (gm_ws_active_sessions (as_metrics (g_app g))) [(''tenant'', t)] of None \<Rightarrow> 0 | Some n \<Rightarrow> n)"

lemma active_gauge_simps [simp]:
  "active_gauge t (gauge_sessions GaugeVec_dec t g) = active_gauge t g - 1"
  "active_gauge t (upd_core f g) = active_gauge t g" "active_gauge t (upd_chans h g) = active_gauge t g"
  "active_gauge t (close_chan tx g) = active_gauge t g"
  by (simp_all add: active_gauge_def gauge_sessions_def upd_metrics_def GaugeVec_dec_def GaugeVec_add_def Let_def
      upd_core_def upd_chans_def upd_rt_def close_chan_def split: option.splits)

text \<open>Two tenants whose ids differ by a colon suffix.\<close>

definition colon_cfg :: GatewayConfig where
  "colon_cfg =
     \<lparr>gc_version = 1, gc_gateway = GatewaySection_default,
      gc_tenants = map (\<lambda>i. \<lparr>tc_id = i, tc_limits = TenantLimits_default,
                             tc_policy = TenantPolicy_default\<rparr>) [''a'', ''a::b'']\<rparr>"


section \<open>An enabled handshake limiter\<close>

definition guarded_cfg :: GatewayConfig where
  "guarded_cfg = duo_cfg\<lparr>gc_gateway := GatewaySection_default\<lparr>gw_handshake_limit := HandshakeConfig_default\<lparr>hs_enabled := True\<rparr>\<rparr>\<rparr>"

lemma guarded_enabled: "hs_enabled (gw_handshake_limit (gc_gateway guarded_cfg))"
  by (simp add: guarded_cfg_def)

lemma guarded_app: "\<exists>app. AppState_new demo_ex 0 guarded_cfg = Inr app"
proof -
  obtain p p' where
    "TenantPolicyRuntime_new ''acme'' (tl_max_frame_bytes TenantLimits_default) TenantPolicy_default 0 = Inr p"
    "TenantPolicyRuntime_new ''globex'' (tl_max_frame_bytes TenantLimits_default) TenantPolicy_default 0 = Inr p'"
    using small_tenant_compiles by meson
  then show ?thesis by (simp add: AppState_new_Inr guarded_cfg_def duo_cfg_def small_tenant_def)
qed

text \<open>The global bucket of the default configuration, with a burst of 200, grants a second request.\<close>

lemma guarded_second:
  assumes "AppState_new demo_ex 0 guarded_cfg = Inr app"
  shows "fst (try_take 6 1 (hd_global (as_handshake (g_app (snd (ws_upgrade demo_ex 5 ip q (Gateway_new app))))))) = Inr ()"
proof -
  let ?h = "HandshakeDefender_new 0 (gw_handshake_limit (gc_gateway guarded_cfg))"
  have h: "as_handshake (g_app (Gateway_new app)) = ?h"
    using assms by (simp add: Gateway_new_def AppState_new_def and_then_eq_Inr Let_def) auto
  have en: "hs_enabled (hd_cfg ?h)" by (simp add: HandshakeDefender_new_def guarded_enabled)
  have "hd_global ?h = LeakyBucket_new 0 200 100"
    by (simp add: HandshakeDefender_new_def guarded_cfg_def HandshakeConfig_default_def)
  then show ?thesis
    by (simp add: ws_upgrade_handshake h hd_check_global [OF en] take_one_second)
qed

end
