(* ===== verification/Spec2Isabelle.thy ===== *)
theory Spec2Isabelle
  imports Codec Gateway_Example
begin

text \<open>
  A verification library for the wsPrism realtime gateway, a multi-tenant WebSocket server in Rust.

  \<^bold>\<open>The program.\<close>  \<open>main.rs\<close> loads and validates \<open>wsprism.yaml\<close> (\<open>config/\<close>), builds the application state
  (\<open>app_state.rs\<close>: one compiled policy per tenant, the realtime core, the dispatcher with the built-in
  services, metrics, the handshake limiter) and serves.  A request passes the checks of \<open>ws_upgrade\<close>
  (\<open>transport/ws.rs\<close>, \<open>transport/handshake.rs\<close>) and becomes a session: a task with its own bounded queue,
  registered in the session registry and, room by room, in the presence tables (\<open>realtime/core/\<close>).  Its
  loop writes queued messages, decodes frames (\<open>transport/codec.rs\<close>, \<open>wsprism-core\<close>), lets the tenant's
  policy decide (\<open>policy/\<close>), joins and leaves rooms and dispatches the rest to services, which publish
  to the queues of other sessions.  A guard removes the session from all tables when the loop ends.
  Shutdown marks the gateway as draining, offers a close frame to every session and waits.

  \<^bold>\<open>The theories.\<close>  All paths are below \<open>src/crates/wsprism-gateway/src\<close> unless they name another crate.
  \<^item> \<open>Ws_Prelude\<close>: machine types, results, the set-valued table idioms, key strings, shared lemmas.
  \<^item> \<open>Ws_Error\<close>, \<open>Hot_Frame\<close>, \<open>Codec\<close>: \<open>wsprism-core\<close> (\<open>error.rs\<close>, \<open>protocol/\<close>) and \<open>transport/codec.rs\<close>.  The
    binary decoder is proved to invert a reference encoder and never to read past its buffer.
  \<^item> \<open>Config_Schema\<close>: \<open>config/\<close>, with a declarative definition of validity that loading is equivalent to.
  \<^item> \<open>Allowlist\<close>, \<open>Rate_Limiter\<close>, \<open>Policy_Engine\<close>: \<open>policy/\<close>.  The locale \<open>rate_limited\<close> states what a limiter
    promises; token bucket, connection limiter and tenant policy are interpretations, which bounds the
    admitted frames of any window.  A frame passes exactly when size, tokens and allowlist admit it.
  \<^item> \<open>Session_Registry\<close>: the session tables.  The user index is exact for all histories (\<open>reg_reach\<close>), the tenant
    counter for those that never insert a key in use (\<open>reuse_free\<close>); the leak otherwise is a theorem.
  \<^item> \<open>Presence\<close>: the presence tables, for any number of users.  In orderly histories (\<open>gw_orderly\<close>: no session
    joins a room it is in or leaves a room it is not in) all tables are a function of one membership
    relation (\<open>presence_keys\<close>); what happens otherwise is stated in the leak theorems.
  \<^item> \<open>Presence_Limits\<close>: what holds of the presence tables after arbitrary histories (\<open>any_reach\<close>): converse
    tables, tenants kept apart, exact room counters and the governance limits.
  \<^item> \<open>Metrics\<close>: \<open>obs/metrics.rs\<close> (\<open>labelled_series\<close>: counters, gauges and histograms are one construction).
  \<^item> \<open>Realtime\<close>, \<open>Services\<close>: \<open>realtime/types.rs\<close>, \<open>realtime/core/realtime.rs\<close>, \<open>dispatch/\<close>, \<open>services/\<close>.  The
    locale \<open>fanout\<close> is delivery to a list of channels, interpreted for lossy and reliable publication;
    \<open>service\<close> is what the transport relies on of a handler.
  \<^item> \<open>Handshake\<close>: \<open>transport/handshake.rs\<close> in rounded binary64 arithmetic (\<open>rounding\<close>), with the shard locks of
    the address table: an admitted check takes the read locks of all shards while it holds one for
    writing, and never returns.
  \<^item> \<open>App_State\<close>: \<open>app_state.rs\<close>, \<open>context/tenant.rs\<close>, \<open>ops/mod.rs\<close>.
  \<^item> \<open>Ws_Session\<close>: \<open>transport/ws.rs\<close>: \<open>ws_upgrade\<close>, the set-up of \<open>run_session\<close> (\<open>ws_setup\<close>, \<open>ws_admit\<close>,
    \<open>kick_oldest\<close>), one function per arm of its loop (\<open>ws_write\<close>, \<open>ws_incoming\<close> with \<open>ws_text\<close> and \<open>ws_hot\<close>,
    \<open>ws_idle\<close>), and the guard (\<open>session_cleanup\<close>, \<open>session_end\<close>).
  \<^item> \<open>Gateway_Main\<close>: \<open>main.rs\<close>, start-up and the shutdown wait with its termination proof.
  \<^item> \<open>Tenant_View\<close>: the invariant of the session tables for arbitrary clients, what a tenant sees of the
    state, and \<open>acts_for\<close>, the frame of a change made for one tenant.
  \<^item> \<open>Gateway_System\<close>: all sessions over the shared state as a step relation, and the invariant of the
    reachable states, arm by arm.
  \<^item> \<open>Gateway_Runs\<close>: the locale \<open>registry_law\<close> lifts what insertion and removal keep to all runs, with the
    tenant session cap as interpretation; draining along runs; sequences of upgrade requests.
  \<^item> \<open>Gateway_Example\<close>: a reachable state with sessions of two tenants, for the witnesses.
  \<^item> This theory: the properties of the whole gateway, and where the transport falls short of them.

  \<^bold>\<open>How the code is modelled.\<close>  Shared state is passed explicitly.  A \<open>DashMap\<close> is a map; where the code
  iterates over one, the order is an argument that lists the set once (\<open>iter_ok\<close>).  Counters and sizes of
  the source keep their width and wrap (\<open>u64\<close>, \<open>u32\<close>, \<open>u8\<close> as words, \<open>i64\<close> gauges as 64-bit words); \<open>usize\<close> is a
  natural number.  Instants are nanoseconds as natural numbers and are arguments of the operations that
  read the clock.  A panic is a value (\<open>None\<close>, \<open>Panic\<close>, \<open>SetupPanic\<close>, \<open>StartPanic\<close>), waiting for ever is the
  value \<open>Stuck\<close>, or \<open>CheckHang\<close> and \<open>Hanging\<close> before the upgrade.  \<open>serde_json\<close>, \<open>serde_yaml\<close>, the file system, address parsing, the socket and the behaviour
  of receivers while a sender waits are arguments.  A channel holds the messages queued and those taken.

  \<^bold>\<open>Granularity.\<close>  One step of the system is one arm of one session's loop, one upgrade request, one session
  set-up or the start of draining; these are the program's code between two returns to its event loops.
  Interleavings inside a step, on several threads, are not modelled: in particular the look at a user's
  session count and the insertion that follows are one step here.  Every loop of the model is structural
  recursion, except the shutdown wait, whose measure is the time to the deadline; no fuel is used.

  \<^bold>\<open>Hypotheses of the gateway properties.\<close>  They hold for valid configurations (what \<open>load_from_file\<close>
  returns) whose tenant ids contain no colon.  The second is not checked by the program, and the last
  theorem of this theory shows what goes wrong without it.  They put no condition on the clients, who may
  reuse session ids, join twice and leave rooms they are not in; properties of single components that
  need such a condition say so.  A set-up is a step of the system whether or not the request before it
  was upgraded, so the properties hold with the handshake limiter on or off.

  \<^bold>\<open>Not modelled.\<close>  \<open>router.rs\<close> (four route registrations; the routing is axum's), the HTTP server, signal
  handling, tracing and sampled log lines, plain accessor functions (the record fields stand for them),
  re-exports and module files, and the size control at the end of \<open>HandshakeDefender::check\<close>, which is never
  reached.

  \<^bold>\<open>Plan.\<close>  Further work: an abstract specification of the gateway as tenants with rooms and members that the
  step relation refines, delivery of a chat message through the whole stack, and races inside set-up.
\<close>

section \<open>Tenants do not see each other\<close>

lemma other_tenant_log:
  assumes ok: "gw_ok ex cfg g" and acts: "acts_for tx t g g'" and "t' \<noteq> t" and "c \<in> tenant_txs g t'"
    and "tx \<in> tenant_txs g t' \<Longrightarrow> t' = t"
  shows "chan_log (g_rt g') c = chan_log (g_rt g) c"
proof (rule ccontr)
  assume "\<not> ?thesis"
  then have "c = tx \<or> c \<in> tenant_txs g t" using acts by (simp add: acts_for_def)
  with assms(3-5) have "c \<in> tenant_txs g t" by auto
  with assms(4) obtain k e k' e' where
    e: "sr_sessions (rc_sessions (g_core g)) k = Some e" "conn_tx (se_conn e) = c" "se_tenant_id e = t"
    and e': "sr_sessions (rc_sessions (g_core g)) k' = Some e'" "conn_tx (se_conn e') = c" "se_tenant_id e' = t'"
    by (auto simp: tenant_txs_def)
  then have "k = k'" using gw_okD(4) [OF ok] unfolding reg_ok_def inj_on_def by (metis (mono_tags, lifting) domI option.map(2))
  with e e' assms(3) show False by simp
qed

lemma fresh_not_registered: "gw_ok ex cfg g \<Longrightarrow> g_next_chan g \<notin> tenant_txs g t"
  by (fastforce dest: gw_okD(4) simp: tenant_txs_def reg_ok_def)

text \<open>
  C1: Tenant isolation.  In a gateway whose tenant ids contain no colon, whatever a session does, in
  every reachable state: its step, its end and the set-up of a new session for its tenant leave every
  other tenant as it was, that is, the other tenant's sessions, user lists and session counter, its
  rooms with their members and users, the rooms and reference counts of its sessions and users, its room
  counter, its policy state with the rate limiter, and
  all messages queued or delivered on its channels.
\<close>

theorem tenant_isolation:
  assumes cfg: "config_valid cfg" "colon_free cfg" and it: "iter_ok (ex_iter ex)" and reach: "sys_reach ex cfg y"
    and live: "sy_live y tx = Some s" and other: "t \<noteq> ws_tenant s"
    and step: "ws_step ex ev s (sy_gw y) = (fl, s', g1)"
    and query: "q_tenant q = ws_tenant s" "ws_setup ex now nanos q (sy_gw y) = (r, g2)"
    and g': "g' \<in> {g1, session_end ex s' g1, g2}"
  shows "tenant_view t g' = tenant_view t (sy_gw y)
    \<and> (\<forall>c \<in> tenant_txs (sy_gw y) t. chan_log (g_rt g') c = chan_log (g_rt (sy_gw y)) c)"
proof -
  note ok = sys_reach_ok [OF reach cfg(1) it cfg(2)]
  note lv = sys_ok_liveD [OF ok live]
  have arm: "mid_ok ex cfg s (sy_gw y) s' g1" using ws_step_arm [OF it cfg(2) lv(1,2), of ev] step by simp
  then have a1: "acts_for tx (ws_tenant s) (sy_gw y) g1" using lv(3) by (simp add: mid_ok_def)
  have "acts_for tx (ws_tenant s) (sy_gw y) (session_end ex s' g1)"
    using arm lv(3) ending_acts [OF _ _ it cfg(2), of g1 s' tx] by (auto simp: mid_ok_def intro: acts_for_trans)
  moreover have "acts_for (g_next_chan (sy_gw y)) (ws_tenant s) (sy_gw y) g2"
    using ws_setup_ok [OF lv(1) it cfg(2,1), of q now nanos] query by (simp add: setup_ok_def)
  ultimately obtain tx' where tx': "acts_for tx' (ws_tenant s) (sy_gw y) g'" "tx' = tx \<or> tx' = g_next_chan (sy_gw y)"
    using a1 g' by auto
  have "t = ws_tenant s" if "tx' \<in> tenant_txs (sy_gw y) t"
    using that tx'(2) lv(4) fresh_not_registered [OF lv(1)] by (auto simp: live_ok_def)
  then show ?thesis
    using other tx'(1) other_tenant_log [OF lv(1) tx'(1) other] by (auto simp: acts_for_def)
qed

theorem tenant_isolation_witness:
  "\<exists>y s fl s' g1. sys_reach demo_ex duo_cfg y \<and> sy_live y 0 = Some s \<and> ws_tenant s = ''acme'' \<and> 1 \<in> tenant_txs (sy_gw y) ''globex''
     \<and> ws_step demo_ex (EvIncoming (Some (MText ''join'')) 0 (\<lambda>_. NoProgress) 0) s (sy_gw y) = (fl, s', g1)
     \<and> tenant_view ''globex'' g1 = tenant_view ''globex'' (sy_gw y) \<and> chan_log (g_rt g1) 1 = [MText ''json'']"
proof -
  obtain y s s1 where y: "sys_reach demo_ex duo_cfg y" "sy_live y = [0 \<mapsto> s, 1 \<mapsto> s1]" "ws_tenant s = ''acme''"
    "1 \<in> tenant_txs (sy_gw y) ''globex''"
    and log: "chan_log (g_rt (sy_gw y)) 1 = [MText ''json'']"
    using duo_run by (auto simp: chan_log_def ch_push_def mpsc_channel_def)
  obtain fl s' g1 where step: "ws_step demo_ex (EvIncoming (Some (MText ''join'')) 0 (\<lambda>_. NoProgress) 0) s (sy_gw y) = (fl, s', g1)"
    using prod_cases3 by blast
  obtain r g2 where su: "ws_setup demo_ex 0 0 (dev_query ''acme'') (sy_gw y) = (r, g2)" by fastforce
  have "tenant_view ''globex'' g1 = tenant_view ''globex'' (sy_gw y)
    \<and> (\<forall>c \<in> tenant_txs (sy_gw y) ''globex''. chan_log (g_rt g1) c = chan_log (g_rt (sy_gw y)) c)"
    by (rule tenant_isolation [OF duo_valid duo_colon_free demo_ex_iter y(1), of 0 s, OF _ _ step _ su]) (simp_all add: y dev_query_def)
  with y step log show ?thesis by auto
qed

section \<open>A well-formed gateway that does not panic\<close>

text \<open>
  C5: Well-formedness of the running gateway, whatever the clients do, repeated joins, stale leaves and
  reused session ids included.  In every reachable state:
  the configuration is the one loaded, and policies exist for exactly its tenants;
  every registered session key starts with the tenant id in its entry and has a channel of its own that
  has been created, and the user index lists exactly the registered sessions, each under the user in its
  key;
  the two tables of sessions and rooms are converse to each other, so are the two tables of users and
  rooms, and all four relate only keys of one tenant;
  the room counter of a tenant is its number of non-empty rooms, and the presence tables respect the
  configured limits;
  and every running session belongs to a configured tenant, has its limits, and runs under keys made of
  its tenant, user and session id.
  Nothing is claimed here of the session counters, which drift when a session id is reused, and of the
  reference counts and who is listed as a user of a room, which drift when a session joins twice.
\<close>

theorem gateway_well_formed:
  assumes "config_valid cfg" and "colon_free cfg" and "iter_ok (ex_iter ex)" and "sys_reach ex cfg y"
    and "reg = rc_sessions (g_core (sy_gw y))" and "p = rc_presence (g_core (sy_gw y))"
  shows "as_cfg (g_app (sy_gw y)) = cfg \<and> dom (as_tenant_policy (g_app (sy_gw y))) = tc_id ` set (gc_tenants cfg)
    \<and> (\<forall>k e. sr_sessions reg k = Some e \<longrightarrow> tenant_of k = se_tenant_id e \<and> conn_tx (se_conn e) < g_next_chan (sy_gw y))
    \<and> conns_distinct (g_rt (sy_gw y))
    \<and> (\<forall>u k. k \<in> dm_get (sr_user_index reg) u \<longleftrightarrow> k \<in> dom (sr_sessions reg) \<and> u = gw_own k)
    \<and> (\<forall>room k. k \<in> dm_get (ps_room_to_sessions p) room \<longleftrightarrow> room \<in> dm_get (ps_session_to_rooms p) k)
    \<and> (\<forall>room k. k \<in> dm_get (ps_room_to_sessions p) room \<longrightarrow> tenant_of k = tenant_of room)
    \<and> (\<forall>room u. u \<in> dm_get (ps_room_to_users p) room \<longleftrightarrow> room \<in> dm_get (ps_user_to_rooms p) u)
    \<and> (\<forall>room u. u \<in> dm_get (ps_room_to_users p) room \<longrightarrow> tenant_of u = tenant_of room)
    \<and> (\<forall>t. room_count p t = of_nat (card {room. dm_get (ps_room_to_sessions p) room \<noteq> {} \<and> tenant_of room = t}))
    \<and> table_limits (cfg_limits cfg) p
    \<and> (\<forall>tx s. sy_live y tx = Some s \<longrightarrow>
         ws_tx s = tx \<and> tx < g_next_chan (sy_gw y) \<and> ws_tenant s \<in> tc_id ` set (gc_tenants cfg)
       \<and> ws_limits s = cfg_limits cfg (ws_tenant s)
       \<and> ws_user_key s = key_join (ws_tenant s) (ws_user_id s)
       \<and> ws_session_key s = key_join (ws_tenant s) (key_join (ws_user_id s) (ws_sid s)))"
proof -
  have ok: "sys_ok ex cfg y" using sys_reach_ok assms(1-4) by blast
  then have g: "gw_ok ex cfg (sy_gw y)" by (simp add: sys_ok_def)
  show ?thesis
    using gw_okD [OF g] gw_ok_tables(2) [OF g] ok
    by (simp add: assms(5,6) reg_ok_def pres_ok_def sys_ok_def live_ok_def sess_ok_def tenant_ids_def)
qed

theorem gateway_well_formed_witness:
  "\<exists>y s. sys_reach demo_ex duo_cfg y \<and> sy_live y 0 = Some s
     \<and> ws_session_key s \<in> dom (sr_sessions (rc_sessions (g_core (sy_gw y))))
     \<and> ws_session_key s \<in> dm_get (sr_user_index (rc_sessions (g_core (sy_gw y)))) (gw_own (ws_session_key s))
     \<and> ws_limits s = cfg_limits duo_cfg ''acme''
     \<and> table_limits (cfg_limits duo_cfg) (rc_presence (g_core (sy_gw y)))"
proof -
  obtain y s s1 where y: "sys_reach demo_ex duo_cfg y" "sy_live y = [0 \<mapsto> s, 1 \<mapsto> s1]" "ws_tenant s = ''acme''"
    "get_session (rc_sessions (g_core (sy_gw y))) (ws_session_key s) = Some \<lparr>conn_tx = 0\<rparr>"
    using duo_run by blast
  then have live: "sy_live y 0 = Some s" and reg: "ws_session_key s \<in> dom (sr_sessions (rc_sessions (g_core (sy_gw y))))"
    by (auto simp: get_session_def)
  note wf = gateway_well_formed [OF duo_valid duo_colon_free demo_ex_iter y(1) refl refl]
  have "ws_session_key s \<in> dm_get (sr_user_index (rc_sessions (g_core (sy_gw y)))) (gw_own (ws_session_key s))"
    using wf reg by blast
  moreover have "ws_limits s = cfg_limits duo_cfg (ws_tenant s)" using wf live by blast
  moreover have "table_limits (cfg_limits duo_cfg) (rc_presence (g_core (sy_gw y)))" using wf by blast
  ultimately show ?thesis using y(1,3) live reg by metis
qed

text \<open>
  C2: No panic and no failed set-up by accident.  In every reachable state no frame, timer or write of
  any running session makes its task panic, and setting up a session, for whatever query, neither
  panics (its tenant look-up and its timers are safe) nor blocks on its own queue.
\<close>

theorem gateway_no_panic:
  assumes "config_valid cfg" and "colon_free cfg" and "iter_ok (ex_iter ex)" and "sys_reach ex cfg y"
  shows "(sy_live y tx = Some s \<longrightarrow> fst (ws_step ex ev s (sy_gw y)) \<noteq> Panic)
    \<and> fst (ws_setup ex now nanos q (sy_gw y)) \<notin> {SetupPanic, SetupStuck}"
proof -
  have ok: "sys_ok ex cfg y" using sys_reach_ok assms by blast
  then have g: "gw_ok ex cfg (sy_gw y)" by (simp add: sys_ok_def)
  have "fst (ws_step ex ev s (sy_gw y)) \<noteq> Panic" if "sy_live y tx = Some s"
    using ws_step_arm [OF assms(3,2) sys_ok_liveD(1,2) [OF ok that], of ev] by (simp add: arm_ok_def case_prod_unfold)
  with ws_setup_ok [OF g assms(3,2,1), of q now nanos] show ?thesis by (simp add: setup_ok_def)
qed

theorem gateway_no_panic_witness:
  "\<exists>y s. sys_reach demo_ex duo_cfg y \<and> sy_live y 0 = Some s
     \<and> fst (ws_step demo_ex (EvIncoming (Some (MBinary [])) 0 (\<lambda>_. NoProgress) 0) s (sy_gw y)) \<noteq> Panic"
proof -
  obtain y s s1 where y: "sys_reach demo_ex duo_cfg y" "sy_live y = [0 \<mapsto> s, 1 \<mapsto> s1]"
    using duo_run by blast
  with gateway_no_panic [OF duo_valid duo_colon_free demo_ex_iter y(1), of 0 s
    "EvIncoming (Some (MBinary [])) 0 (\<lambda>_. NoProgress) 0"] show ?thesis
    by (intro exI [of _ y] exI [of _ s]) simp
qed

text \<open>
  C4: The session cap of a tenant holds in every reachable state, also when clients reuse session ids
  and the counter is no longer exact: a tenant with a positive \<open>max_sessions_total\<close> never has more
  registered sessions than that.
\<close>

theorem tenant_cap_holds:
  assumes "config_valid cfg" and "colon_free cfg" and "iter_ok (ex_iter ex)" and "sys_reach ex cfg y"
    and "find (\<lambda>tc. tc_id tc = t) (gc_tenants cfg) = Some tc" and "tl_max_sessions_total (tc_limits tc) > 0"
  shows "card {k. \<exists>e. sr_sessions (rc_sessions (g_core (sy_gw y))) k = Some e \<and> se_tenant_id e = t}
    \<le> unat (tl_max_sessions_total (tc_limits tc))"
proof -
  have "caps_hold cfg (rc_sessions (g_core (sy_gw y)))" using cap.law_reach assms(1-4) by blast
  then have "capped (tl_max_sessions_total (tc_limits tc)) t (rc_sessions (g_core (sy_gw y)))"
    using assms(5,6) by (simp add: caps_hold_def)
  then show ?thesis by (auto simp: capped_def tenant_sessions_def word_le_nat_alt)
qed

theorem tenant_cap_holds_witness:
  "\<exists>y. sys_reach demo_ex duo_cfg y \<and> 0 \<in> tenant_txs (sy_gw y) ''acme''
     \<and> card {k. \<exists>e. sr_sessions (rc_sessions (g_core (sy_gw y))) k = Some e \<and> se_tenant_id e = ''acme''} \<le> 1"
proof -
  obtain y where y: "sys_reach demo_ex duo_cfg y" "0 \<in> tenant_txs (sy_gw y) ''acme''" using duo_run by blast
  have "find (\<lambda>tc. tc_id tc = ''acme'') (gc_tenants duo_cfg) = Some (small_tenant ''acme'')"
    by (simp add: duo_cfg_def small_tenant_def)
  from tenant_cap_holds [OF duo_valid duo_colon_free demo_ex_iter y(1) this] y show ?thesis
    by (auto simp: small_tenant_def)
qed

section \<open>The life of a session\<close>

text \<open>
  C14: The handshake limiter, once enabled, lets nobody in.  In a gateway started with the limiter enabled,
  whatever requests came before, no request is upgraded: it is refused with status 429 or never answered.
  Every request that both buckets grant is never answered, the very first one among them, and that one
  keeps the lock on its shard of the address table for good: from then on every request from an address of
  that shard that the global bucket grants is never answered either.
\<close>

theorem enabled_limiter_blocks_upgrades:
  assumes app: "AppState_new ex t cfg = Inr app" and en: "hs_enabled (gw_handshake_limit (gc_gateway cfg))"
    and g: "g = serve_requests ex rs (Gateway_new app)" and r: "ws_upgrade ex now ip q g = (r, g')"
  shows "r \<noteq> Upgraded \<and> (\<forall>p. r = Refused p \<longrightarrow> rs_status p = 429)
    \<and> (fst (try_take now 1 (hd_global (as_handshake (g_app g)))) = Inr ()
         \<and> fst (try_take now 1 (ip_bucket now ip (as_handshake (g_app g)))) = Inr () \<longrightarrow> r = Hanging)
    \<and> (rs = [] \<longrightarrow> r = Hanging)
    \<and> (rs \<noteq> [] \<and> ex_shard ex ip = ex_shard ex (fst (snd (hd rs)))
         \<and> fst (try_take now 1 (hd_global (as_handshake (g_app g)))) = Inr () \<longrightarrow> r = Hanging)"
proof -
  let ?h = "as_handshake (g_app g)" and ?init = "as_handshake (g_app (Gateway_new app))"
  have h0: "?init = HandshakeDefender_new t (gw_handshake_limit (gc_gateway cfg))"
    using app by (simp add: Gateway_new_def AppState_new_def and_then_eq_Inr Let_def) auto
  with en have en0: "hs_enabled (hd_cfg ?init)" by (simp add: HandshakeDefender_new_def)
  have e: "hs_enabled (hd_cfg ?h)" using serve_requests_held [OF en0] g by blast
  note c = ws_upgrade_check [OF e, of ex now ip q, unfolded r fst_conv]
  have first: "fst (hd_check (ex_shard ex) n i ?init) = CheckHang" for n i
    using hd_check_first [OF en] by (simp add: h0)
  have "fst (hd_check (ex_shard ex) now ip ?h) = CheckHang"
    if "rs = (n, i, q') # rs'" and "ex_shard ex ip = ex_shard ex i" and "fst (try_take now 1 (hd_global ?h)) = Inr ()"
    for n i q' rs'
  proof -
    let ?g = "snd (ws_upgrade ex n i q' (Gateway_new app))"
    have "ex_shard ex i \<in> hd_held (as_handshake (g_app ?g))"
      using hd_check_hang_holds [OF en0 first] by (simp add: ws_upgrade_handshake)
    moreover have "hs_enabled (hd_cfg (as_handshake (g_app ?g)))"
      using hd_check_enabled(5) [OF en0] en0 by (metis ws_upgrade_handshake prod.collapse)
    ultimately have "ex_shard ex ip \<in> hd_held ?h"
      using serve_requests_held [of ?g ex rs'] that(1,2) g by (auto simp: serve_requests_def)
    then show ?thesis using hd_check_enabled(2) [OF e _ that(3)] by (metis prod.collapse)
  qed
  moreover have "rs = [] \<Longrightarrow> r = Hanging" using c(2) first g by (simp add: serve_requests_def)
  moreover have "r = Hanging"
    if "fst (try_take now 1 (hd_global ?h)) = Inr ()" "fst (try_take now 1 (ip_bucket now ip ?h)) = Inr ()"
    using c(2) hd_check_enabled(3) [OF e _ that] by (metis prod.collapse)
  ultimately show ?thesis using c by (cases rs) auto
qed

theorem enabled_limiter_blocks_upgrades_witness:
  "\<exists>app g' g''. AppState_new demo_ex 0 guarded_cfg = Inr app
     \<and> ws_upgrade demo_ex 5 (V4 1) (dev_query ''acme'') (Gateway_new app) = (Hanging, g')
     \<and> ws_upgrade demo_ex 6 (V4 2) (dev_query ''acme'') g' = (Hanging, g'')"
proof -
  obtain app where app: "AppState_new demo_ex 0 guarded_cfg = Inr app" using guarded_app by blast
  let ?g = "snd (ws_upgrade demo_ex 5 (V4 1) (dev_query ''acme'') (Gateway_new app))"
  obtain r where r: "ws_upgrade demo_ex 5 (V4 1) (dev_query ''acme'') (Gateway_new app) = (r, ?g)"
    by (metis prod.collapse)
  obtain r' g'' where r': "ws_upgrade demo_ex 6 (V4 2) (dev_query ''acme'') ?g = (r', g'')" by fastforce
  have s: "serve_requests demo_ex [(5, V4 1, dev_query ''acme'')] (Gateway_new app) = ?g"
    by (simp add: serve_requests_def)
  have "r = Hanging"
    using enabled_limiter_blocks_upgrades [OF app guarded_enabled _ r, of "[]"] by (simp add: serve_requests_def)
  moreover have "r' = Hanging"
    using enabled_limiter_blocks_upgrades [OF app guarded_enabled s [symmetric] r'] guarded_second [OF app]
    by (simp add: demo_ex_def)
  ultimately show ?thesis using app r r' by blast
qed

text \<open>
  C3: A session leaves nothing behind under its key.  When the loop of a running session ends, in any
  reachable state, its key is in no table of the registry, in no user's list and in no room, no room is
  recorded for it, and its channel accepts no more messages.  Every session with a different key keeps its
  registration and channel, its place in the user index and its rooms.  A newer connection that reused the
  session id, and so has the same key, loses its registration and its rooms with it.
\<close>

theorem session_end_leaves_no_trace:
  assumes cfg: "config_valid cfg" "colon_free cfg" and it: "iter_ok (ex_iter ex)" and reach: "sys_reach ex cfg y"
    and live: "sy_live y tx = Some s" and g': "g' = session_end ex s (sy_gw y)"
  shows "get_session (rc_sessions (g_core g')) (ws_session_key s) = None
    \<and> (\<forall>u. ws_session_key s \<notin> dm_get (sr_user_index (rc_sessions (g_core g'))) u)
    \<and> (\<forall>room. ws_session_key s \<notin> set (sessions_in (ex_iter ex) (rc_presence (g_core g')) room))
    \<and> dm_get (ps_session_to_rooms (rc_presence (g_core g'))) (ws_session_key s) = {}
    \<and> \<not> is_open (g_rt g') tx
    \<and> (\<forall>k. k \<noteq> ws_session_key s \<longrightarrow>
         get_session (rc_sessions (g_core g')) k = get_session (rc_sessions (g_core (sy_gw y))) k
       \<and> (\<forall>u. k \<in> dm_get (sr_user_index (rc_sessions (g_core g'))) u \<longleftrightarrow>
            k \<in> dm_get (sr_user_index (rc_sessions (g_core (sy_gw y)))) u)
       \<and> (\<forall>room. k \<in> set (sessions_in (ex_iter ex) (rc_presence (g_core g')) room) \<longleftrightarrow>
            k \<in> set (sessions_in (ex_iter ex) (rc_presence (g_core (sy_gw y))) room))
       \<and> dm_get (ps_session_to_rooms (rc_presence (g_core g'))) k =
           dm_get (ps_session_to_rooms (rc_presence (g_core (sy_gw y)))) k)"
proof -
  note ok = sys_reach_ok [OF reach cfg(1) it cfg(2)]
  note lv = sys_ok_liveD [OF ok live]
  note keys = sess_keys [OF cfg(2) lv(2)]
  let ?p = "rc_presence (g_core (sy_gw y))" and ?r = "rc_sessions (g_core (sy_gw y))" and ?k = "ws_session_key s"
  have p': "rc_presence (g_core g') = cleanup_session (ex_iter ex) (ws_tenant s) (ws_user_key s) ?k ?p"
    and r': "rc_sessions (g_core g') = snd (remove_session (ws_user_key s) ?k ?r)"
    by (simp_all add: g' session_end_def session_cleanup_def Let_def close_chan_def upd_core_def)
  have ok': "gw_ok ex cfg g'" unfolding g' by (rule gw_ok_end [OF lv(1) it cfg(2) lv(2)])
  note pres = gw_okD(5) [OF lv(1)] gw_okD(5) [OF ok']
  have mem: "members (rc_presence (g_core g')) room = members ?p room - {?k}" for room
    unfolding p' by (rule pres_ok_cleanup(2) [OF pres(1) it keys(2)])
  have rooms: "set (sessions_in (ex_iter ex) (rc_presence (g_core g')) room) =
      set (sessions_in (ex_iter ex) ?p room) - {?k}" for room
    using mem sessions_in_members [OF pres_okD(1) it] pres by simp
  have s2r: "dm_get (ps_session_to_rooms (rc_presence (g_core g'))) k =
      (if k = ?k then {} else dm_get (ps_session_to_rooms ?p) k)" for k
    using pres_okD(5) [OF pres(2)] pres_okD(5) [OF pres(1)] mem by auto
  have sess: "get_session (rc_sessions (g_core g')) k = (if k = ?k then None else get_session ?r k)" for k
    by (simp add: r' remove_session_eq get_session_def)
  have idx: "k \<in> dm_get (sr_user_index (rc_sessions (g_core g'))) u \<longleftrightarrow> k \<noteq> ?k \<and> k \<in> dm_get (sr_user_index ?r) u" for k u
    using gw_okD(4) [OF ok'] gw_okD(4) [OF lv(1)] unfolding reg_ok_def by (auto simp: r' remove_session_eq)
  have "\<not> is_open (g_rt g') tx"
    using lv(3) by (auto simp: g' session_end_def close_chan_def upd_chans_def is_open_def split: option.splits)
  then show ?thesis by (simp add: rooms s2r sess idx)
qed

theorem session_end_leaves_no_trace_witness:
  "\<exists>y s s'. sys_reach demo_ex duo_cfg y \<and> sy_live y = [0 \<mapsto> s, 1 \<mapsto> s']
     \<and> get_session (rc_sessions (g_core (sy_gw y))) (ws_session_key s) = Some \<lparr>conn_tx = 0\<rparr>
     \<and> get_session (rc_sessions (g_core (session_end demo_ex s (sy_gw y)))) (ws_session_key s) = None
     \<and> get_session (rc_sessions (g_core (session_end demo_ex s (sy_gw y)))) ''globex::user:dev::1'' =
         get_session (rc_sessions (g_core (sy_gw y))) ''globex::user:dev::1''"
proof -
  obtain y s s1 where y: "sys_reach demo_ex duo_cfg y" "sy_live y = [0 \<mapsto> s, 1 \<mapsto> s1]" "ws_tenant s = ''acme''"
    "get_session (rc_sessions (g_core (sy_gw y))) (ws_session_key s) = Some \<lparr>conn_tx = 0\<rparr>" using duo_run by blast
  then have live: "sy_live y 0 = Some s" by simp
  have "sess_ok duo_cfg s" by (rule sys_ok_liveD(2) [OF sys_reach_ok [OF y(1) duo_valid demo_ex_iter duo_colon_free] live])
  then have "tenant_of (ws_session_key s) = ''acme''" using sess_keys(2) [OF duo_colon_free] y(3) by simp
  moreover have "tenant_of ''globex::user:dev::1'' = ''globex''" by (simp add: tenant_of_def)
  ultimately have "''globex::user:dev::1'' \<noteq> ws_session_key s" by auto
  with session_end_leaves_no_trace [OF duo_valid duo_colon_free demo_ex_iter y(1) live refl] y show ?thesis by blast
qed

section \<open>Start-up and draining\<close>

text \<open>
  C17: What is served.  If the process reaches the serving state, then \<open>wsprism.yaml\<close> was read and parsed to a
  valid configuration, the gateway is an initial state of the system for that configuration, with no
  session, and the grace period of a later shutdown is the configured one, at most ten minutes.
\<close>

theorem main_start_serves:
  assumes "main_start rd yaml parse_addr bind ex now = Serving g grace"
  shows "\<exists>raw cfg. rd ''wsprism.yaml'' = Inr raw \<and> yaml raw = Inr cfg \<and> config_valid cfg
    \<and> sys_reach ex cfg \<lparr>sy_gw = g, sy_live = Map.empty\<rparr>
    \<and> len_sessions (rc_sessions (g_core g)) = 0 \<and> \<not> app_is_draining (g_app g)
    \<and> grace = unat (gw_drain_grace_ms (gc_gateway cfg)) \<and> grace \<le> 600000"
proof -
  obtain cfg listen app where cfg: "load_from_file rd yaml ''wsprism.yaml'' = Inr cfg"
    and app: "AppState_new ex now cfg = Inr app" and g: "g = Gateway_new app"
    and grace: "grace = unat (gw_drain_grace_ms (gc_gateway (as_cfg app)))"
    using assms by (auto simp: main_start_def split: sum.splits option.splits if_splits)
  obtain raw where raw: "rd ''wsprism.yaml'' = Inr raw" "yaml raw = Inr cfg" "config_valid cfg"
    using cfg by (auto simp: load_from_file_def load_from_str_def and_then_eq_Inr GatewayConfig_validate_iff
        split: sum.splits)
  have "as_cfg app = cfg" "as_realtime app = Runtime_new" "as_metrics app = GatewayMetrics_default"
    using app by (auto simp: AppState_new_Inr)
  moreover have "unat (gw_drain_grace_ms (gc_gateway cfg)) \<le> 600000"
    using raw(3) by (simp add: config_valid_def gateway_valid_def)
  moreover have "sys_reach ex cfg \<lparr>sy_gw = g, sy_live = Map.empty\<rparr>" unfolding g by (rule sys_reach_new [OF app])
  ultimately show ?thesis
    using raw g grace
    by (auto simp: Gateway_new_def len_sessions_def Runtime_new_def RealtimeCore_new_def SessionRegistry_new_def
        app_is_draining_def is_draining_def GatewayMetrics_default_def)
qed

theorem main_start_serves_witness:
  "\<exists>g. main_start (\<lambda>_. Inr ''yaml'') (\<lambda>_. Inr duo_cfg) (\<lambda>a. Some a) (\<lambda>_. True) demo_ex 0 = Serving g 2000
     \<and> len_sessions (rc_sessions (g_core g)) = 0"
proof -
  obtain app where app: "AppState_new demo_ex 0 duo_cfg = Inr app" "as_cfg app = duo_cfg" using duo_app by blast
  have "GatewayConfig_validate duo_cfg = Inr ()" using duo_valid by (simp add: GatewayConfig_validate_iff)
  then have "main_start (\<lambda>_. Inr ''yaml'') (\<lambda>_. Inr duo_cfg) (\<lambda>a. Some a) (\<lambda>_. True) demo_ex 0 = Serving (Gateway_new app) 2000"
    by (simp add: main_start_def load_from_file_def load_from_str_def and_then_def app)
      (simp add: duo_cfg_def GatewaySection_default_def default_drain_grace_ms_def)
  with main_start_serves [OF this] show ?thesis by blast
qed

text \<open>
  C15: Draining is final.  Once draining has begun, no request is upgraded again, whatever sessions, new
  requests and timers do afterwards.
\<close>

theorem drain_is_final:
  assumes cfg: "config_valid cfg" "colon_free cfg" and it: "iter_ok (ex_iter ex)" and reach: "sys_reach ex cfg y"
    and after: "(sys_step ex)\<^sup>*\<^sup>* (y\<lparr>sy_gw := begin_drain ex (sy_gw y)\<rparr>) y'"
  shows "fst (ws_upgrade ex now ip q (sy_gw y')) \<noteq> Upgraded"
proof -
  let ?y = "y\<lparr>sy_gw := begin_drain ex (sy_gw y)\<rparr>"
  have "sys_reach ex cfg ?y" by (rule sys_reach_step [OF reach sys_step.sys_drain])
  moreover have "g_drain (sy_gw ?y)" by (simp add: begin_drain_def enter_draining_def set_draining_def)
  ultimately have "g_drain (sy_gw y')" using sys_steps_drain [OF after _ it cfg(2,1)] by blast
  then show ?thesis using upgrade_not_draining by blast
qed

theorem drain_is_final_witness:
  "\<exists>y. sys_reach demo_ex duo_cfg y
     \<and> (\<forall>ip. fst (ws_upgrade demo_ex 0 ip (dev_query ''acme'') (begin_drain demo_ex (sy_gw y))) \<noteq> Upgraded)"
proof -
  obtain y where y: "sys_reach demo_ex duo_cfg y" using duo_run by blast
  have "(sys_step demo_ex)\<^sup>*\<^sup>* (y\<lparr>sy_gw := begin_drain demo_ex (sy_gw y)\<rparr>) (y\<lparr>sy_gw := begin_drain demo_ex (sy_gw y)\<rparr>)" by simp
  from drain_is_final [OF duo_valid duo_colon_free demo_ex_iter y this] y show ?thesis by auto
qed

text \<open>
  C16: The shutdown wait ends.  Whatever the sessions do, the wait polls the session table at most once
  per 50 ms of the grace period, ends within 50 ms (and the overrun of one sleep) of the deadline, and
  ends before the deadline only when no session is left.
\<close>

theorem shutdown_wait_ends:
  assumes "\<forall>t. late t \<le> b"
  shows "case shutdown_wait gw late grace now of (polls, t) \<Rightarrow>
     polls \<le> (grace + 49) div 50 \<and> now \<le> t \<and> t < now + grace * 1000000 + 50000000 + b
   \<and> (t < now + grace * 1000000 \<longrightarrow> len_sessions (rc_sessions (g_core (gw t))) = 0)"
proof -
  let ?d = "now + grace * 1000000"
  have "(?d - now + 50000000 - 1) div 50000000 = ((grace + 49) * 1000000 + 999999) div 1000000 div 50"
    by (simp add: div_mult2_eq [symmetric])
  also have "\<dots> = (grace + 49) div 50" by (subst div_mult_self3) simp_all
  finally have "fst (drain_loop gw late ?d now) \<le> (grace + 49) div 50"
    using drain_loop_polls [of gw late ?d now] by simp
  with drain_loop_end [where late = late and b = b and now = now and gw = gw and deadline = ?d] assms show ?thesis
    by (auto simp: shutdown_wait_def case_prod_unfold)
qed


theorem shutdown_wait_ends_witness:
  "\<exists>y. sys_reach demo_ex duo_cfg y
     \<and> (case shutdown_wait (\<lambda>_. sy_gw y) (\<lambda>_. 7) 2000 0 of (polls, t) \<Rightarrow> polls \<le> 40 \<and> t < 2050000007)"
proof -
  obtain y where y: "sys_reach demo_ex duo_cfg y" using duo_run by blast
  have "\<forall>t :: nat. (7 :: nat) \<le> 7" by simp
  from shutdown_wait_ends [OF this, where gw = "\<lambda>_. sy_gw y" and grace = 2000 and now = 0] y show ?thesis by auto
qed

section \<open>Where the transport falls short\<close>

text \<open>
  C38: Replies to fatal errors are never written.  When a frame cannot be decoded and the queue has room,
  the error reply is queued and the loop ends at once: nothing is written to the socket, and the end of
  the session closes the queue with the reply in it.
\<close>

theorem error_reply_lost:
  assumes dec: "decode (ex_envelope ex) m = Some (Inl e)" and room: "has_room (g_rt g) (ws_tx s)"
  shows "\<exists>s' g'. ws_loop ex (EvIncoming (Some m) now w dur # evs) s g = (Break, s', session_end ex s' g')
    \<and> ws_wire s' = ws_wire s
    \<and> chan_log (g_rt g') (ws_tx s) = chan_log (g_rt g) (ws_tx s)
        @ [MText (sys_error_json ex (as_str (client_code e)) (error_to_string e) (ws_trace_id s))]
    \<and> \<not> is_open (g_rt (session_end ex s' g')) (ws_tx s)"
proof -
  define s' where "s' = s\<lparr>ws_sess := (ws_sess s)\<lparr>st_last_activity := now\<rparr>\<rparr>"
  define h where "h = upd_metrics (\<lambda>m. m\<lparr>gm_decode_errors :=
    CounterVec_inc [(''tenant'', ws_tenant s')] (gm_decode_errors m)\<rparr>) g"
  define msg where "msg = MText (sys_error_json ex (as_str (client_code e)) (error_to_string e) (ws_trace_id s))"
  obtain c where c: "rt_chans (g_rt h) (ws_tx s) = Some c" "ch_open c" "\<not> ch_full c"
    using room by (auto simp: has_room_def h_def split: option.splits)
  let ?g = "upd_chans (\<lambda>_. (rt_chans (g_rt h))(ws_tx s \<mapsto> ch_push msg c)) h"
  have s: "ws_tx s' = ws_tx s" "ws_trace_id s' = ws_trace_id s" "ws_wire s' = ws_wire s" by (simp_all add: s'_def)
  have "ws_step ex (EvIncoming (Some m) now w dur) s g = send_error ex Break (as_str (client_code e)) (error_to_string e) s' h"
    by (simp add: ws_incoming_def dec s'_def h_def Let_def)
  also have "\<dots> = (Break, s', ?g)"
    using c by (simp add: send_error_def out_send_def send_await_def s msg_def)
  finally have "ws_loop ex (EvIncoming (Some m) now w dur # evs) s g = (Break, s', session_end ex s' ?g)" by simp
  moreover have "chan_log (g_rt ?g) (ws_tx s) = chan_log (g_rt g) (ws_tx s) @ [msg]"
    using c by (simp add: upd_chans_def chan_log_def ch_push_def h_def)
  moreover have "\<not> is_open (g_rt (session_end ex s' ?g)) (ws_tx s)"
    using s by (auto simp: session_end_def close_chan_def upd_chans_def is_open_def split: option.splits)
  ultimately show ?thesis using s(3) msg_def by blast
qed

theorem error_reply_lost_witness:
  "\<exists>y s s' g'. sys_reach demo_ex duo_cfg y \<and> sy_live y 0 = Some s
     \<and> ws_loop demo_ex [EvIncoming (Some (MBinary [])) 0 (\<lambda>_. NoProgress) 0] s (sy_gw y) = (Break, s', session_end demo_ex s' g')
     \<and> ws_wire s' = [] \<and> chan_log (g_rt g') 0 = [MText ''json'', MText ''json'']"
proof -
  obtain y s s1 where y: "sys_reach demo_ex duo_cfg y" "sy_live y = [0 \<mapsto> s, 1 \<mapsto> s1]" "ws_wire s = []" "ws_tx s = 0"
    "rt_chans (g_rt (sy_gw y)) = [0 \<mapsto> ch_push (MText ''json'') (mpsc_channel 1024),
                                  1 \<mapsto> ch_push (MText ''json'') (mpsc_channel 1024)]" using duo_run by blast
  have "has_room (g_rt (sy_gw y)) (ws_tx s)" and log: "chan_log (g_rt (sy_gw y)) 0 = [MText ''json'']"
    using y by (simp_all add: has_room_def chan_log_def ch_push_def mpsc_channel_def ch_full_def)
  moreover obtain e where "decode (ex_envelope demo_ex) (MBinary []) = Some (Inl e)"
    using decode_total [of "ex_envelope demo_ex"] by (auto simp: decode_hot_frame_def)
  ultimately have "\<exists>s' g'. ws_loop demo_ex [EvIncoming (Some (MBinary [])) 0 (\<lambda>_. NoProgress) 0] s (sy_gw y) = (Break, s', session_end demo_ex s' g')
     \<and> ws_wire s' = [] \<and> chan_log (g_rt g') 0 = [MText ''json'', MText ''json'']"
    using error_reply_lost [of demo_ex "MBinary []" e "sy_gw y" s 0 "\<lambda>_. NoProgress" 0 "[]"] y(3,4) log
    by (auto simp: sys_error_json_def demo_ex_def)
  moreover have "sy_live y 0 = Some s" using y(2) by simp
  ultimately show ?thesis using y(1) by blast
qed

text \<open>
  C37: A loop can block on its own queue for ever.  A session whose open queue is full does not survive
  its next ping, nor a client's ping: the loop waits for a slot in the queue that only it reads.  It
  processes no further event and its clean-up never runs.
\<close>

theorem own_queue_deadlock:
  assumes "rt_chans (g_rt g) (ws_tx s) = Some c" and "ch_open c" and "ch_full c"
    and "ev = EvPing \<or> ev = EvIncoming (Some (MPing p)) now w dur"
  shows "\<exists>s' g'. ws_loop ex (ev # evs) s g = (Stuck, s', g') \<and> g_core g' = g_core g
    \<and> rt_chans (g_rt g') (ws_tx s) = Some c"
  using assms(4)
proof
  assume "ev = EvPing"
  with assms(1-3) show ?thesis by (simp add: out_send_def send_await_def) (simp add: upd_chans_def)
next
  assume "ev = EvIncoming (Some (MPing p)) now w dur"
  with assms(1-3) show ?thesis
    by (simp add: ws_incoming_def Let_def out_send_def send_await_def) (simp add: upd_chans_def)
qed

theorem own_queue_deadlock_witness:
  "\<exists>y s s' g'. sys_reach demo_ex duo_cfg y \<and> sy_live y 0 = Some s
     \<and> ws_loop demo_ex [EvPing, EvWrite Written] s (sy_gw y) = (Stuck, s', g')"
proof -
  obtain y s where y: "sys_reach demo_ex duo_cfg y" "sy_live y 0 = Some s" "ws_tx s = 0"
    and c: "rt_chans (g_rt (sy_gw y)) 0 =
      Some \<lparr>ch_cap = 1024, ch_queue = MText ''json'' # replicate 1023 (MPing []), ch_taken = [], ch_open = True\<rparr>"
    using pings_fill_queue [of 1023] by auto
  from own_queue_deadlock [of "sy_gw y" s _ EvPing, OF _ _ _ disjI1 [OF refl]] y c show ?thesis
    by (fastforce simp: ch_full_def)
qed

text \<open>
  C39: Kicking a session is counted twice.  When a session is evicted and its own loop then ends, exactly its
  registration disappears, at the eviction, and its end removes no further one; but the gauge of active
  sessions of its tenant is lowered at the eviction and again at its end: one session, two decrements.
\<close>

theorem kick_counts_twice:
  assumes evict: "evict_oldest (ex_iter ex) (ws_user_key s) (rc_sessions (g_core g)) = (Some (ws_session_key s, c), r)"
    and g1: "g1 = kick_oldest ex (ws_tenant s) (ws_user_key s) tr g" and g2: "g2 = session_end ex s g1"
  shows "ws_session_key s \<in> dom (sr_sessions (rc_sessions (g_core g)))
    \<and> dom (sr_sessions (rc_sessions (g_core g1))) = dom (sr_sessions (rc_sessions (g_core g))) - {ws_session_key s}
    \<and> dom (sr_sessions (rc_sessions (g_core g2))) = dom (sr_sessions (rc_sessions (g_core g1)))
    \<and> active_gauge (ws_tenant s) g1 = active_gauge (ws_tenant s) g - 1
    \<and> active_gauge (ws_tenant s) g2 = active_gauge (ws_tenant s) g - 2"
proof -
  let ?k = "ws_session_key s"
  have k: "?k \<in> dom (sr_sessions (rc_sessions (g_core g)))"
    using evict_oldest_entry [of "ex_iter ex" "ws_user_key s" "rc_sessions (g_core g)" ?k c] evict by auto
  have r: "r = snd (remove_session (ws_user_key s) ?k (rc_sessions (g_core g)))"
    using evict by (auto simp: evict_oldest_def Let_def case_prod_unfold split: option.splits)
  have r1: "rc_sessions (g_core g1) = r"
    by (simp add: g1 kick_oldest_def evict Let_def gauge_sessions_def upd_metrics_def upd_core_def upd_chans_def upd_rt_def)
  have r2: "rc_sessions (g_core g2) = snd (remove_session (ws_user_key s) ?k r)"
    by (simp add: g2 session_end_def session_cleanup_def Let_def close_chan_def upd_core_def r1)
  have "active_gauge (ws_tenant s) g1 = active_gauge (ws_tenant s) g - 1"
    by (simp add: g1 kick_oldest_def evict Let_def)
  moreover have "active_gauge (ws_tenant s) g2 = active_gauge (ws_tenant s) g1 - 1"
    by (simp add: g2 session_end_def session_cleanup_def Let_def)
  ultimately show ?thesis using k by (auto simp: r1 r2 r remove_session_eq split: if_splits)
qed

theorem kick_counts_twice_witness:
  "\<exists>y s. sys_reach demo_ex duo_cfg y \<and> sy_live y 0 = Some s \<and> ws_tenant s = ''acme''
     \<and> ws_session_key s \<in> dom (sr_sessions (rc_sessions (g_core (sy_gw y))))
     \<and> active_gauge ''acme'' (session_end demo_ex s (kick_oldest demo_ex ''acme'' (ws_user_key s) ''t'' (sy_gw y)))
       = active_gauge ''acme'' (sy_gw y) - 2"
proof -
  obtain y s s1 where y: "sys_reach demo_ex duo_cfg y" "sy_live y = [0 \<mapsto> s, 1 \<mapsto> s1]" "ws_tenant s = ''acme''"
    "fst (evict_oldest (ex_iter demo_ex) (ws_user_key s) (rc_sessions (g_core (sy_gw y)))) = Some (ws_session_key s, \<lparr>conn_tx = 0\<rparr>)"
    using duo_run by blast
  obtain r where "evict_oldest (ex_iter demo_ex) (ws_user_key s) (rc_sessions (g_core (sy_gw y)))
    = (Some (ws_session_key s, \<lparr>conn_tx = 0\<rparr>), r)" using y(4) by (metis prod.collapse)
  from kick_counts_twice [OF this refl refl] y show ?thesis by auto
qed

text \<open>
  C40: Tenant ids may contain the separator of the keys.  A configuration with the tenants \<open>a\<close> and \<open>a::b\<close> is
  valid, and a session of tenant \<open>a\<close> in room \<open>b::r\<close> and a session of tenant \<open>a::b\<close> in room \<open>r\<close> are in one room
  of the presence table, to which the publications of both tenants go.
\<close>

theorem tenant_ids_with_colons_collide:
  "config_valid colon_cfg
   \<and> (let ctx = RealtimeCtx_new ''a'' dev_user ''1'' ''t'' None;
          ctx' = RealtimeCtx_new ''a::b'' dev_user ''2'' ''t'' None;
          rt = snd (join_room_with_limits ctx ''b::r'' TenantLimits_default Runtime_new);
          rt' = snd (join_room_with_limits ctx' ''r'' TenantLimits_default rt)
      in ctx_tenant ctx \<noteq> ctx_tenant ctx'
       \<and> set (sessions_in sorted_list_of_set (rc_presence (rt_core rt')) (ctx_room_key ctx ''b::r''))
           = {ctx_session_key ctx, ctx_session_key ctx'})"
proof -
  have "config_valid colon_cfg"
    unfolding colon_cfg_def by (rule default_tenants_valid) (simp_all add: white3_def)
  moreover have "key_join ''a'' ''b::r'' = key_join ''a::b'' ''r''" by (simp add: key_join_def)
  ultimately show ?thesis
    by (auto simp: Let_def RealtimeCtx_new_def join_room_with_limits_def case_prod_unfold ctx_room_key_def
        Runtime_new_def RealtimeCore_new_def Presence_new_def try_join_def TenantLimits_default_def
        perform_join_tables sessions_in_def dm_add_def simp del: sorted_list_of_set_insert_remove)
qed

end
